theory Spec2Isabelle
  imports Main "HOL-Library.Sublist"
begin

section \<open>Text and paths\<close>

text \<open>
  A text is modelled as a byte string: the UTF-8 bytes of the JavaScript string, which is
  the form in which node stores it in a file, hands it to the file system as a path and
  turns it into a \<^verbatim>\<open>Buffer\<close>. The byte \<^verbatim>\<open>CHR 0x0A\<close> is the line feed.
  The regular expressions of the source use only ASCII literals, \<^verbatim>\<open>\s\<close> and \<^verbatim>\<open>\b\<close>;
  \<^verbatim>\<open>\s\<close> matches the white space and line terminators of ECMAScript, listed here by
  their UTF-8 encodings.
\<close>

definition whiteSpace :: "string list" where
  "whiteSpace =
    [[CHR 0x09], [CHR 0x0A], [CHR 0x0B], [CHR 0x0C], [CHR 0x0D], [CHR 0x20],
     [CHR 0xC2, CHR 0xA0],
     [CHR 0xE1, CHR 0x9A, CHR 0x80],
     [CHR 0xE2, CHR 0x80, CHR 0x80], [CHR 0xE2, CHR 0x80, CHR 0x81],
     [CHR 0xE2, CHR 0x80, CHR 0x82], [CHR 0xE2, CHR 0x80, CHR 0x83],
     [CHR 0xE2, CHR 0x80, CHR 0x84], [CHR 0xE2, CHR 0x80, CHR 0x85],
     [CHR 0xE2, CHR 0x80, CHR 0x86], [CHR 0xE2, CHR 0x80, CHR 0x87],
     [CHR 0xE2, CHR 0x80, CHR 0x88], [CHR 0xE2, CHR 0x80, CHR 0x89],
     [CHR 0xE2, CHR 0x80, CHR 0x8A],
     [CHR 0xE2, CHR 0x80, CHR 0xA8], [CHR 0xE2, CHR 0x80, CHR 0xA9],
     [CHR 0xE2, CHR 0x80, CHR 0xAF],
     [CHR 0xE2, CHR 0x81, CHR 0x9F],
     [CHR 0xE3, CHR 0x80, CHR 0x80],
     [CHR 0xEF, CHR 0xBB, CHR 0xBF]]"

definition leading :: "string list \<Rightarrow> string \<Rightarrow> string option" where
  "leading pats s = find (\<lambda>w. w \<noteq> [] \<and> prefix w s) pats"

function skipLeading :: "string list \<Rightarrow> string \<Rightarrow> string" where
  "skipLeading pats s =
     (case leading pats s of
        None \<Rightarrow> s
      | Some w \<Rightarrow> skipLeading pats (drop (length w) s))"
  by pat_completeness auto
termination
  by (relation "measure (\<lambda>(pats, s). length s)")
     (auto simp: leading_def find_Some_iff prefix_def)

declare skipLeading.simps [simp del]

definition skipWhiteSpace :: "string \<Rightarrow> string" where
  "skipWhiteSpace s = skipLeading whiteSpace s"

text \<open>\<^verbatim>\<open>String.prototype.trim\<close>: white space is removed at both ends.\<close>

definition trim :: "string \<Rightarrow> string" where
  "trim s = rev (skipLeading (map rev whiteSpace) (rev (skipWhiteSpace s)))"

text \<open>The word characters of \<^verbatim>\<open>\b\<close> and \<^verbatim>\<open>\w\<close>: \<^verbatim>\<open>[A-Za-z0-9_]\<close>.\<close>

definition isWordChar :: "char \<Rightarrow> bool" where
  "isWordChar c =
     (let n = (of_char c :: nat)
      in (48 \<le> n \<and> n \<le> 57) \<or> (65 \<le> n \<and> n \<le> 90) \<or> n = 95 \<or> (97 \<le> n \<and> n \<le> 122))"

definition stripPrefix :: "string \<Rightarrow> string \<Rightarrow> string option" where
  "stripPrefix p s = (if prefix p s then Some (drop (length p) s) else None)"

text \<open>
  \<^verbatim>\<open>/STATUS:\s*DONE\b/\<close> matched at the start of \<open>s\<close>. No white space starts with
  \<^verbatim>\<open>D\<close>, so the greedy \<^verbatim>\<open>\s*\<close> never has to give a character back. \<^verbatim>\<open>\b\<close> after the word
  character \<^verbatim>\<open>E\<close> holds at the end of the text and before a character that is not a
  word character.
\<close>

definition doneMarkerAt :: "string \<Rightarrow> bool" where
  "doneMarkerAt s =
     (case stripPrefix ''STATUS:'' s of
        None \<Rightarrow> False
      | Some r \<Rightarrow>
          (case stripPrefix ''DONE'' (skipWhiteSpace r) of
             None \<Rightarrow> False
           | Some t \<Rightarrow> (case t of [] \<Rightarrow> True | c # _ \<Rightarrow> \<not> isWordChar c)))"

text \<open>\<^verbatim>\<open>/STATUS:\s*DONE\b/.test(planText)\<close>: a match at some position of the text.\<close>

fun doneMarkerTest :: "string \<Rightarrow> bool" where
  "doneMarkerTest [] = doneMarkerAt []"
| "doneMarkerTest (c # s) = (doneMarkerAt (c # s) \<or> doneMarkerTest s)"

text \<open>Decimal rendering of an integer, as a template literal renders a number.\<close>

fun digitsOf :: "nat \<Rightarrow> string" where
  "digitsOf n =
     (if n < 10 then [char_of (48 + n)]
      else digitsOf (n div 10) @ [char_of (48 + n mod 10)])"

declare digitsOf.simps [simp del]

definition numberToString :: "int \<Rightarrow> string" where
  "numberToString n = (if n < 0 then CHR ''-'' # digitsOf (nat (- n)) else digitsOf (nat n))"

subsection \<open>node's \<^verbatim>\<open>path\<close> module (POSIX)\<close>

text \<open>\<^verbatim>\<open>String.prototype.split\<close> at a separator character: the pieces between separators.\<close>

fun splitOn :: "char \<Rightarrow> string \<Rightarrow> string list" where
  "splitOn sep [] = [[]]"
| "splitOn sep (c # s) =
     (if c = sep then [] # splitOn sep s
      else (case splitOn sep s of [] \<Rightarrow> [[c]] | p # ps \<Rightarrow> (c # p) # ps))"

definition joinWith :: "string \<Rightarrow> string list \<Rightarrow> string" where
  "joinWith sep ps = (case ps of [] \<Rightarrow> [] | p # qs \<Rightarrow> p @ concat (map (\<lambda>q. sep @ q) qs))"

text \<open>
  \<^verbatim>\<open>normalizeString\<close> of node's \<^verbatim>\<open>path\<close>, segment by segment: \<open>res\<close> holds the segments kept
  so far. An empty segment and \<^verbatim>\<open>.\<close> are dropped; \<^verbatim>\<open>..\<close> removes the last segment kept,
  and is itself kept only above the root of a relative path.
\<close>

fun normalizeSegments :: "bool \<Rightarrow> string list \<Rightarrow> string list \<Rightarrow> string list" where
  "normalizeSegments allowAboveRoot res [] = res"
| "normalizeSegments allowAboveRoot res (seg # segs) =
     (if seg = [] \<or> seg = ''.'' then normalizeSegments allowAboveRoot res segs
      else if seg = ''..'' then
        (if res = [] \<or> last res = ''..''
         then normalizeSegments allowAboveRoot (if allowAboveRoot then res @ [''..''] else res) segs
         else normalizeSegments allowAboveRoot (butlast res) segs)
      else normalizeSegments allowAboveRoot (res @ [seg]) segs)"

definition normalizeString :: "string \<Rightarrow> bool \<Rightarrow> string" where
  "normalizeString p allowAboveRoot =
     joinWith ''/'' (normalizeSegments allowAboveRoot [] (splitOn CHR ''/'' p))"

definition normalize :: "string \<Rightarrow> string" where
  "normalize p =
     (if p = [] then ''.''
      else
        (let isAbsolute = (hd p = CHR ''/'');
             trailingSeparator = (last p = CHR ''/'');
             q = normalizeString p (\<not> isAbsolute)
         in if q = [] then (if isAbsolute then ''/'' else if trailingSeparator then ''./'' else ''.'')
            else (if isAbsolute then ''/'' else []) @ q @ (if trailingSeparator then ''/'' else [])))"

text \<open>\<^verbatim>\<open>path.join\<close>: the non-empty arguments, joined by \<^verbatim>\<open>/\<close> and normalized.\<close>

definition path_join :: "string list \<Rightarrow> string" where
  "path_join args =
     (case filter (\<lambda>a. a \<noteq> []) args of
        [] \<Rightarrow> ''.''
      | a # as \<Rightarrow> normalize (joinWith ''/'' (a # as)))"

text \<open>
  \<^verbatim>\<open>path.resolve\<close>: the arguments are taken from the right until an absolute one is met,
  the working directory \<open>cwd\<close> standing before the first.
\<close>

fun resolveFrom :: "string list \<Rightarrow> string \<Rightarrow> string" where
  "resolveFrom [] resolvedPath = resolvedPath"
| "resolveFrom (p # ps) resolvedPath =
     (if p = [] then resolveFrom ps resolvedPath
      else if hd p = CHR ''/'' then p @ ''/'' @ resolvedPath
      else resolveFrom ps (p @ ''/'' @ resolvedPath))"

definition path_resolve :: "string \<Rightarrow> string list \<Rightarrow> string" where
  "path_resolve cwd args =
     (let resolvedPath = resolveFrom (rev (cwd # args)) [];
          resolvedAbsolute = (resolvedPath \<noteq> [] \<and> hd resolvedPath = CHR ''/'');
          q = normalizeString resolvedPath (\<not> resolvedAbsolute)
      in if resolvedAbsolute then CHR ''/'' # q
         else if q \<noteq> [] then q else ''.'')"

definition isAbsolute :: "string \<Rightarrow> bool" where
  "isAbsolute p = (p \<noteq> [] \<and> hd p = CHR ''/'')"

text \<open>A plain file name: one non-empty path segment other than \<^verbatim>\<open>.\<close> and \<^verbatim>\<open>..\<close>.\<close>

definition plainName :: "string \<Rightarrow> bool" where
  "plainName n = (n \<noteq> [] \<and> CHR ''/'' \<notin> set n \<and> n \<noteq> ''.'' \<and> n \<noteq> ''..'')"

subsection \<open>The file tree\<close>

text \<open>
  What a path names: a directory or an entry of another kind (a regular file, a device).
  A file system gives the kind of every entry under the list of names that lead to it
  from the root, which is a directory, and says which entries the operating system will
  not create (no permission, a read-only medium, a name that is too long). Symbolic links
  are not modelled.
\<close>

datatype kind = Directory | NonDirectory

record fileSystem =
  entries :: "string list \<Rightarrow> kind option"
  refused :: "string list \<Rightarrow> bool"

definition kindAt :: "fileSystem \<Rightarrow> string list \<Rightarrow> kind option" where
  "kindAt t d = (if d = [] then Some Directory else entries t d)"

text \<open>
  The names of a path, and the directory its resolution starts in: the root for an
  absolute path, the working directory of the process for a relative one.
\<close>

definition pathNames :: "string \<Rightarrow> string list" where
  "pathNames p = splitOn (CHR ''/'') p"

definition startDir :: "string \<Rightarrow> string \<Rightarrow> string list" where
  "startDir cwd p = (if isAbsolute p then [] else filter (\<lambda>n. n \<noteq> []) (pathNames cwd))"

text \<open>
  Path resolution as the operating system does it, name by name from the directory \<open>d\<close>:
  every name is looked up in a directory, an empty name and \<^verbatim>\<open>.\<close> stay there, \<^verbatim>\<open>..\<close> goes up.
  \<open>None\<close> is a path that names nothing (\<^verbatim>\<open>ENOENT\<close>, \<^verbatim>\<open>ENOTDIR\<close>).
\<close>

fun walk :: "fileSystem \<Rightarrow> string list \<Rightarrow> string list \<Rightarrow> string list option" where
  "walk t d [] = Some d"
| "walk t d (n # ns) =
     (if kindAt t d \<noteq> Some Directory then None
      else if n = [] \<or> n = ''.'' then walk t d ns
      else if n = ''..'' then walk t (butlast d) ns
      else if kindAt t (d @ [n]) = None then None
      else walk t (d @ [n]) ns)"

text \<open>
  \<^verbatim>\<open>fs.existsSync(p)\<close>: false for the empty path, for a path with a NUL byte and for a path
  that names nothing.
\<close>

definition existsSync :: "string \<Rightarrow> string \<Rightarrow> fileSystem \<Rightarrow> bool" where
  "existsSync cwd p t =
     (p \<noteq> [] \<and> CHR 0x00 \<notin> set p \<and> walk t (startDir cwd p) (pathNames p) \<noteq> None)"

text \<open>
  \<^verbatim>\<open>fs.mkdirSync(p, { recursive: true })\<close>: the directories of the path that are missing
  are made from the top down. The call throws at a name under an entry that is no
  directory, at an entry the system refuses to make, and for a path that exists as
  something else than a directory, that is empty or that has a NUL byte; the directories
  made until then stay.
\<close>

datatype 'a attempt = Thrown 'a | Done 'a

fun treeOf :: "fileSystem attempt \<Rightarrow> fileSystem" where
  "treeOf (Thrown t) = t"
| "treeOf (Done t) = t"

fun makeDirs :: "fileSystem \<Rightarrow> string list \<Rightarrow> string list \<Rightarrow> fileSystem attempt" where
  "makeDirs t d [] = (if kindAt t d = Some Directory then Done t else Thrown t)"
| "makeDirs t d (n # ns) =
     (if kindAt t d \<noteq> Some Directory then Thrown t
      else if n = [] \<or> n = ''.'' then makeDirs t d ns
      else if n = ''..'' then makeDirs t (butlast d) ns
      else if kindAt t (d @ [n]) \<noteq> None then makeDirs t (d @ [n]) ns
      else if refused t (d @ [n]) then Thrown t
      else makeDirs (t\<lparr>entries := (entries t)(d @ [n] \<mapsto> Directory)\<rparr>) (d @ [n]) ns)"

definition mkdirSync :: "string \<Rightarrow> string \<Rightarrow> fileSystem \<Rightarrow> fileSystem attempt" where
  "mkdirSync cwd p t =
     (if p = [] \<or> CHR 0x00 \<in> set p then Thrown t
      else makeDirs t (startDir cwd p) (pathNames p))"

subsection \<open>Notions for the statements about texts and paths\<close>

text \<open>
  A run of white space is a sequence of white-space characters, and a word boundary after
  a word character is the end of the text or a character that is not a word character.
\<close>

definition whiteSpaceRun :: "string \<Rightarrow> bool" where
  "whiteSpaceRun ws = (\<exists>wss. set wss \<subseteq> set whiteSpace \<and> ws = concat wss)"

definition wordBoundary :: "string \<Rightarrow> bool" where
  "wordBoundary t = (case t of [] \<Rightarrow> True | c # _ \<Rightarrow> \<not> isWordChar c)"

text \<open>
  What \<^verbatim>\<open>path.join\<close> puts before a plain file name joined to the directory \<open>d\<close>: the
  normalized directory and a separator.
\<close>

definition dirPrefix :: "string \<Rightarrow> string" where
  "dirPrefix d =
     (if d = [] then []
      else (if hd d = CHR ''/'' then ''/'' else []) @
           (let res = normalizeSegments (hd d \<noteq> CHR ''/'') [] (splitOn CHR ''/'' d)
            in if res = [] then [] else joinWith ''/'' res @ ''/''))"


section \<open>The plan/build loop engine (\<^verbatim>\<open>loop-runner.ts\<close>, \<^verbatim>\<open>codexRun.ts\<close>)\<close>

record Args =
  goal :: string
  maxIterations :: int
  workdir :: string
  stateDir :: string

text \<open>
  \<open>maxIterations\<close> and the loop counter are JavaScript numbers that hold whole numbers
  (the iteration budget is a count); the model takes them as integers, negative ones
  included, and \<^verbatim>\<open>Number(value) || 0\<close> as the number read, 0 for \<^verbatim>\<open>NaN\<close>.
\<close>

record RunTurnOptions =
  promptText :: string
  opt_workdir :: string
  opt_threadId :: "string option"
  additionalDirectories :: "string list"
  sandboxMode :: string
  approvalPolicy :: string
  skipGitRepoCheck :: bool

record RunTurnResult =
  threadId :: "string option"
  finalResponse :: string
  items :: string
  usage :: string

datatype failure =
    Usage string
  | NoSuchFile string
  | TurnFailed string
  | StateDirNotMade string

text \<open>
  What the engine runs in. \<open>files\<close> is the content of the files the engine and the
  agent read and write, under the path text they are named by; \<open>tree\<close> is the rest of
  the file system, where directories are looked up and made; \<open>stdout\<close> is the chunks
  written to standard output. \<open>turnLog\<close> and \<open>writeLog\<close> record, in order, the options
  of every turn run and every file written by the engine itself; the program does not
  read them. A write is taken to succeed, and a read fails exactly when the file is
  absent.
\<close>

record world =
  files :: "string \<rightharpoonup> string"
  tree :: fileSystem
  stdout :: "string list"
  turnLog :: "RunTurnOptions list"
  writeLog :: "(string \<times> string) list"

text \<open>
  What the engine calls and does not define. \<open>codex\<close> is the turn executor behind
  \<^verbatim>\<open>thread.run\<close>: given the number of turns run before, whether the thread is started or
  resumed, the options and the files, it fails with a message or returns the result and
  the files as the agent left them. \<open>toNumber\<close> is \<^verbatim>\<open>Number(value)\<close> where the value
  reads as a whole number (\<open>None\<close> is \<^verbatim>\<open>NaN\<close>), \<open>stringReplaceAll\<close> is
  \<^verbatim>\<open>String.prototype.replaceAll\<close>,
  \<open>stringify\<close> is \<^verbatim>\<open>JSON.stringify(_, null, 2)\<close>, \<open>cwd\<close> is \<^verbatim>\<open>process.cwd()\<close> and
  \<open>moduleDir\<close> the directory of the running module.
\<close>

datatype threadStart = StartThread | ResumeThread string

record externals =
  codex :: "nat \<Rightarrow> threadStart \<Rightarrow> RunTurnOptions \<Rightarrow> (string \<rightharpoonup> string)
              \<Rightarrow> string + (RunTurnResult \<times> (string \<rightharpoonup> string))"
  toNumber :: "string \<Rightarrow> int option"
  stringReplaceAll :: "string \<Rightarrow> string \<Rightarrow> string \<Rightarrow> string"
  stringify :: "RunTurnResult \<Rightarrow> string"
  cwd :: string
  moduleDir :: string

text \<open>
  \<^verbatim>\<open>runTurn\<close>: a truthy \<^verbatim>\<open>threadId\<close> (neither absent nor empty) resumes that thread,
  anything else starts one.
\<close>

definition threadFor :: "RunTurnOptions \<Rightarrow> threadStart" where
  "threadFor options =
     (case opt_threadId options of
        None \<Rightarrow> StartThread
      | Some t \<Rightarrow> if t \<noteq> [] then ResumeThread t else StartThread)"

definition runTurn :: "externals \<Rightarrow> RunTurnOptions \<Rightarrow> world \<Rightarrow> failure + (RunTurnResult \<times> world)" where
  "runTurn ext options w =
     (let thread = threadFor options
      in case codex ext (length (turnLog w)) thread options (files w) of
           Inl message \<Rightarrow> Inl (TurnFailed message)
         | Inr (turn, fs) \<Rightarrow> Inr (turn, w\<lparr>files := fs, turnLog := turnLog w @ [options]\<rparr>))"

definition writeFileSync :: "string \<Rightarrow> string \<Rightarrow> world \<Rightarrow> world" where
  "writeFileSync p content w =
     w\<lparr>files := (files w)(p \<mapsto> content), writeLog := writeLog w @ [(p, content)]\<rparr>"

definition stdoutWrite :: "string \<Rightarrow> world \<Rightarrow> world" where
  "stdoutWrite chunk w = w\<lparr>stdout := stdout w @ [chunk]\<rparr>"

definition readTextIfExists :: "string \<Rightarrow> (string \<rightharpoonup> string) \<Rightarrow> string option" where
  "readTextIfExists p fs = fs p"

text \<open>\<^verbatim>\<open>fs.existsSync\<close> in the engine: a file with content, or an entry of the tree.\<close>

definition existsInWorld :: "externals \<Rightarrow> string \<Rightarrow> world \<Rightarrow> bool" where
  "existsInWorld ext p w = (files w p \<noteq> None \<or> existsSync (cwd ext) p (tree w))"

text \<open>
  \<^verbatim>\<open>parseArgs\<close>: \<open>parseFrom\<close> is the \<^verbatim>\<open>for\<close> loop over \<^verbatim>\<open>argv\<close>; \<^verbatim>\<open>fail\<close> ends the process
  with the message, here the result \<open>Inl (Usage message)\<close>.
\<close>

fun parseFrom :: "externals \<Rightarrow> string list \<Rightarrow> Args \<Rightarrow> failure + Args" where
  "parseFrom ext [] a = Inr a"
| "parseFrom ext [arg] a =
     (if arg = ''--goal'' then Inl (Usage ''Missing value for --goal'')
      else if arg = ''--max-iterations'' then Inl (Usage ''Missing value for --max-iterations'')
      else if arg = ''--workdir'' then Inl (Usage ''Missing value for --workdir'')
      else if arg = ''--state-dir'' then Inl (Usage ''Missing value for --state-dir'')
      else Inl (Usage (''Unknown arg: '' @ arg)))"
| "parseFrom ext (arg # v # rest) a =
     (if arg = ''--goal'' then
        (if v = [] then Inl (Usage ''Missing value for --goal'')
         else parseFrom ext rest (a\<lparr>goal := v\<rparr>))
      else if arg = ''--max-iterations'' then
        (if v = [] then Inl (Usage ''Missing value for --max-iterations'')
         else parseFrom ext rest
                (a\<lparr>maxIterations := (case toNumber ext v of None \<Rightarrow> 0 | Some n \<Rightarrow> n)\<rparr>))
      else if arg = ''--workdir'' then
        (if v = [] then Inl (Usage ''Missing value for --workdir'')
         else parseFrom ext rest (a\<lparr>workdir := path_resolve (cwd ext) [v]\<rparr>))
      else if arg = ''--state-dir'' then
        (if v = [] then Inl (Usage ''Missing value for --state-dir'')
         else parseFrom ext rest (a\<lparr>stateDir := path_resolve (cwd ext) [v]\<rparr>))
      else Inl (Usage (''Unknown arg: '' @ arg)))"

definition parseArgs :: "externals \<Rightarrow> string list \<Rightarrow> failure + Args" where
  "parseArgs ext argv =
     (case parseFrom ext argv \<lparr>goal = [], maxIterations = 0, workdir = cwd ext, stateDir = []\<rparr> of
        Inl e \<Rightarrow> Inl e
      | Inr a \<Rightarrow>
          if trim (goal a) = [] then Inl (Usage ''--goal is required'')
          else if stateDir a = [] then Inl (Usage ''--state-dir is required'')
          else Inr a)"

text \<open>\<^verbatim>\<open>replaceAll\<close> and \<^verbatim>\<open>renderPrompt\<close>: each placeholder in turn, over the whole template.\<close>

definition replaceAll :: "externals \<Rightarrow> string \<Rightarrow> (string \<times> string) list \<Rightarrow> string" where
  "replaceAll ext template replacements =
     fold (\<lambda>(key, v) next. stringReplaceAll ext next key v) replacements template"

definition renderPrompt ::
  "externals \<Rightarrow> string \<Rightarrow> string \<Rightarrow> (string \<times> string) list \<Rightarrow> world \<Rightarrow> failure + world" where
  "renderPrompt ext templatePath outputPath replacements w =
     (case files w templatePath of
        None \<Rightarrow> Inl (NoSuchFile templatePath)
      | Some template \<Rightarrow> Inr (writeFileSync outputPath (replaceAll ext template replacements) w))"

definition findPackageRoot :: "externals \<Rightarrow> string \<Rightarrow> world \<Rightarrow> string" where
  "findPackageRoot ext fromDir w =
     (let candidates = [path_resolve (cwd ext) [fromDir, ''..''],
                        path_resolve (cwd ext) [fromDir, ''..'', ''..'']]
      in case find (\<lambda>candidate.
                existsInWorld ext (path_join [candidate, ''prompts'', ''plan.md'']) w \<and>
                existsInWorld ext (path_join [candidate, ''prompts'', ''build.md'']) w) candidates of
           Some candidate \<Rightarrow> candidate
         | None \<Rightarrow> path_resolve (cwd ext) [fromDir, ''..'', ''..''])"

text \<open>The files of the state directory, as \<^verbatim>\<open>main\<close> names them.\<close>

definition threadFile :: "Args \<Rightarrow> string" where
  "threadFile args = path_join [stateDir args, ''thread_id'']"

definition planRendered :: "Args \<Rightarrow> string" where
  "planRendered args = path_join [stateDir args, ''plan_prompt.md'']"

definition buildRendered :: "Args \<Rightarrow> string" where
  "buildRendered args = path_join [stateDir args, ''build_prompt.md'']"

definition planOut :: "Args \<Rightarrow> string" where
  "planOut args = path_join [stateDir args, ''plan_out.log'']"

definition buildOut :: "Args \<Rightarrow> string" where
  "buildOut args = path_join [stateDir args, ''build_out.log'']"

definition planPath :: "Args \<Rightarrow> string" where
  "planPath args = path_join [stateDir args, ''IMPLEMENTATION_PLAN.md'']"

text \<open>
  \<^verbatim>\<open>if (result.threadId) { writeFileSync(threadFile, ...); stdout.write(...) }\<close>, the same
  statement after the plan turn and after every build turn: the handle is written when it
  is truthy, that is neither \<^verbatim>\<open>null\<close> nor the empty string.
\<close>

definition persistThread :: "Args \<Rightarrow> RunTurnResult \<Rightarrow> world \<Rightarrow> world" where
  "persistThread args turn w =
     (case threadId turn of
        None \<Rightarrow> w
      | Some t \<Rightarrow>
          if t \<noteq> [] then stdoutWrite (''thread: '' @ t @ [CHR 0x0A]) (writeFileSync (threadFile args) t w)
          else w)"

text \<open>
  The options of a build turn: \<^verbatim>\<open>tid\<close> is the trimmed content of the handle file, and
  \<^verbatim>\<open>tid || undefined\<close> is no handle when the file is absent or blank.
\<close>

definition buildOptions :: "Args \<Rightarrow> string \<Rightarrow> world \<Rightarrow> RunTurnOptions" where
  "buildOptions args buildPromptText w =
     (let tid = map_option trim (readTextIfExists (threadFile args) (files w))
      in \<lparr>promptText = buildPromptText,
          opt_workdir = workdir args,
          opt_threadId = (case tid of None \<Rightarrow> None | Some t \<Rightarrow> if t \<noteq> [] then Some t else None),
          additionalDirectories = [stateDir args],
          sandboxMode = ''workspace-write'',
          approvalPolicy = ''never'',
          skipGitRepoCheck = True\<rparr>)"

text \<open>
  One build turn, from reading the handle to persisting the new one: the part of the loop
  body between the iteration cap and the completion check.
\<close>

definition buildTurn :: "externals \<Rightarrow> Args \<Rightarrow> string \<Rightarrow> world \<Rightarrow> failure + world" where
  "buildTurn ext args buildPromptText w =
     (case runTurn ext (buildOptions args buildPromptText w) w of
        Inl e \<Rightarrow> Inl e
      | Inr (buildResult, w1) \<Rightarrow>
          Inr (persistThread args buildResult
                 (writeFileSync (buildOut args) (stringify ext buildResult) w1)))"

text \<open>
  The completion check after a build turn: an absent plan file reads as the empty text.
\<close>

definition planMarkedDone :: "Args \<Rightarrow> (string \<rightharpoonup> string) \<Rightarrow> bool" where
  "planMarkedDone args fs =
     doneMarkerTest (case readTextIfExists (planPath args) fs of None \<Rightarrow> [] | Some planText \<Rightarrow> planText)"

text \<open>
  One pass through the body of the \<^verbatim>\<open>while (true)\<close> loop of \<^verbatim>\<open>main\<close>: it ends in a
  \<^verbatim>\<open>break\<close>, in the next pass or in a failure of the turn.
\<close>

datatype passEnd = Break world | Continue world

definition loopBody :: "externals \<Rightarrow> Args \<Rightarrow> string \<Rightarrow> int \<Rightarrow> world \<Rightarrow> failure + passEnd" where
  "loopBody ext args buildPromptText iter w =
     (if maxIterations args > 0 \<and> iter \<ge> maxIterations args then
        Inr (Break (stdoutWrite (''Reached max iterations: '' @ numberToString (maxIterations args)
                                   @ [CHR 0x0A]) w))
      else
        (case buildTurn ext args buildPromptText w of
           Inl e \<Rightarrow> Inl e
         | Inr w1 \<Rightarrow>
             if planMarkedDone args (files w1) then
               Inr (Break (stdoutWrite (''Plan marked DONE. Exiting.'' @ [CHR 0x0A]) w1))
             else
               Inr (Continue (stdoutWrite (''================ LOOP '' @ numberToString (iter + 1)
                                             @ '' ================'' @ [CHR 0x0A]) w1))))"

text \<open>
  The loop need not end: \<open>None\<close> is a run that goes on forever, \<open>Some (Inl e)\<close> one ended
  by a failure and \<open>Some (Inr w)\<close> one that left the loop through a \<^verbatim>\<open>break\<close>.
\<close>

partial_function (option) buildLoop ::
  "externals \<Rightarrow> Args \<Rightarrow> string \<Rightarrow> int \<Rightarrow> world \<Rightarrow> (failure + world) option" where
  "buildLoop ext args buildPromptText iter w =
     (case loopBody ext args buildPromptText iter w of
        Inl e \<Rightarrow> Some (Inl e)
      | Inr (Break w1) \<Rightarrow> Some (Inr w1)
      | Inr (Continue w1) \<Rightarrow> buildLoop ext args buildPromptText (iter + 1) w1)"

text \<open>
  \<^verbatim>\<open>main\<close>: the state directory is made, the plan turn is run and its handle persisted,
  then the build loop runs. An error thrown on the way ends the run.
\<close>

definition main :: "externals \<Rightarrow> string list \<Rightarrow> world \<Rightarrow> (failure + world) option" where
  "main ext argv w =
     (case parseArgs ext argv of
        Inl e \<Rightarrow> Some (Inl e)
      | Inr args \<Rightarrow>
          (case mkdirSync (cwd ext) (stateDir args) (tree w) of
             Thrown t \<Rightarrow> Some (Inl (StateDirNotMade (stateDir args)))
           | Done t \<Rightarrow>
               (let w0 = w\<lparr>tree := t\<rparr>;
                    packageRoot = findPackageRoot ext (moduleDir ext) w0;
                    planTemplate = path_join [packageRoot, ''prompts'', ''plan.md''];
                    buildTemplate = path_join [packageRoot, ''prompts'', ''build.md''];
                    replacements = [(''{{GOAL}}'', goal args), (''{{PLAN_PATH}}'', planPath args)]
                in case renderPrompt ext planTemplate (planRendered args) replacements w0 of
                     Inl e \<Rightarrow> Some (Inl e)
                   | Inr w1 \<Rightarrow>
                       (case files w1 (planRendered args) of
                          None \<Rightarrow> Some (Inl (NoSuchFile (planRendered args)))
                        | Some planPromptText \<Rightarrow>
                            (case runTurn ext
                                    \<lparr>promptText = planPromptText,
                                     opt_workdir = workdir args,
                                     opt_threadId = None,
                                     additionalDirectories = [stateDir args],
                                     sandboxMode = ''workspace-write'',
                                     approvalPolicy = ''never'',
                                     skipGitRepoCheck = True\<rparr> w1 of
                               Inl e \<Rightarrow> Some (Inl e)
                             | Inr (planResult, w2) \<Rightarrow>
                                 (let w3 = persistThread args planResult
                                             (writeFileSync (planOut args) (stringify ext planResult) w2)
                                  in case renderPrompt ext buildTemplate (buildRendered args) replacements w3 of
                                       Inl e \<Rightarrow> Some (Inl e)
                                     | Inr w4 \<Rightarrow>
                                         (case files w4 (buildRendered args) of
                                            None \<Rightarrow> Some (Inl (NoSuchFile (buildRendered args)))
                                          | Some buildPromptText \<Rightarrow>
                                              buildLoop ext args buildPromptText 0 w4)))))))"

text \<open>
  Notions the statements about the loop are written in: the plan text the completion
  check reads in a world, how a pass of the loop body ended, and the texts the regular
  expression of the completion check accepts, spelled out: \<^verbatim>\<open>STATUS:\<close>, then any run of
  white space, then \<^verbatim>\<open>DONE\<close> at a word boundary.
\<close>

definition planText :: "Args \<Rightarrow> world \<Rightarrow> string" where
  "planText args w = (case files w (planPath args) of None \<Rightarrow> [] | Some t \<Rightarrow> t)"

definition isBreak :: "failure + passEnd \<Rightarrow> bool" where
  "isBreak r = (case r of Inr (Break _) \<Rightarrow> True | _ \<Rightarrow> False)"

definition isContinue :: "failure + passEnd \<Rightarrow> bool" where
  "isContinue r = (case r of Inr (Continue _) \<Rightarrow> True | _ \<Rightarrow> False)"

definition statusDone :: "string \<Rightarrow> bool" where
  "statusDone t = (\<exists>pre ws post. t = pre @ ''STATUS:'' @ ws @ ''DONE'' @ post \<and> whiteSpaceRun ws \<and> wordBoundary post)"

section \<open>The run supervisor and the log broadcaster (\<^verbatim>\<open>server.ts\<close>)\<close>

datatype SessionStatus = running | succeeded | failed | stopped

text \<open>
  The fields of a \<^verbatim>\<open>SessionRecord\<close>; those whose names other records use as well carry
  the prefix \<open>sess_\<close> (\<open>sess_id\<close> is \<^verbatim>\<open>id\<close>). An optional field that is not set is \<open>None\<close>.
\<close>

record SessionRecord =
  sess_id :: string
  sess_goal :: string
  sess_maxIterations :: int
  sess_workdir :: string
  sess_stateDir :: string
  startedAt :: string
  endedAt :: "string option"
  status :: SessionStatus
  sess_threadId :: "string option"

text \<open>A connected observer: its id (\<^verbatim>\<open>id\<close>) and its response object (\<^verbatim>\<open>res\<close>), named by a number.\<close>

record Client =
  client_id :: string
  client_res :: nat

text \<open>
  The registry document \<^verbatim>\<open>sessions.json\<close> as \<^verbatim>\<open>JSON.parse\<close> reads it: the list of records
  it holds, or a text that does not parse. A document that parses to something else than
  a list is met where \<^verbatim>\<open>startSession\<close> calls \<^verbatim>\<open>saveSessions\<close>, as a call that throws.
\<close>

datatype document = Unreadable | Sessions "SessionRecord list"

text \<open>What a server context is created with.\<close>

record config =
  defaultWorkdir :: string
  stateBaseDir :: string
  loopRunnerCommand :: string
  loopRunnerArgs :: "string list"
  serverCwd :: string

text \<open>
  The state of a server context and of what it acts on. \<open>clients\<close>, \<open>child\<close> (the command
  line of the running loop engine), \<open>currentSession\<close> and \<open>logBuffer\<close> are the variables of
  \<^verbatim>\<open>createServerContext\<close>; they are lost when the server process ends. \<open>sessionsFile\<close> is
  the registry document (\<open>None\<close>: no such file) and \<open>fsys\<close> the rest of the file system;
  both outlive the process. \<open>responses\<close> holds, for every response object,
  the chunks written to it so far, and \<open>published\<close> every line broadcast by this server
  process, in order; the program reads neither.
\<close>

record server =
  clients :: "Client list"
  child :: "(string \<times> string list) option"
  currentSession :: "SessionRecord option"
  logBuffer :: "string list"
  sessionsFile :: "document option"
  fsys :: fileSystem
  responses :: "nat \<Rightarrow> string list"
  published :: "string list"

subsection \<open>The log broadcaster\<close>

definition payload :: "string \<Rightarrow> string" where
  "payload line = ''data: '' @ line @ [CHR 0x0A, CHR 0x0A]"

definition resWrite :: "nat \<Rightarrow> string \<Rightarrow> server \<Rightarrow> server" where
  "resWrite r chunk s = s\<lparr>responses := (responses s)(r := responses s r @ [chunk])\<rparr>"

text \<open>
  \<^verbatim>\<open>broadcast\<close>: the line joins the buffer and goes to every client of the moment. Writing
  to a response does not throw.
\<close>

definition broadcast :: "string \<Rightarrow> server \<Rightarrow> server" where
  "broadcast line s =
     fold (\<lambda>c. resWrite (client_res c) (payload line)) (clients s)
       (s\<lparr>logBuffer := logBuffer s @ [line], published := published s @ [line]\<rparr>)"

text \<open>
  \<^verbatim>\<open>GET /api/events\<close>: the new client is added under a fresh id \<open>uuid\<close>, then the buffer is
  replayed to its response \<open>r\<close>. \<open>connectionClosed\<close> is the \<^verbatim>\<open>close\<close> handler of that request:
  the first client with the id is removed.
\<close>

definition subscribe :: "string \<Rightarrow> nat \<Rightarrow> server \<Rightarrow> server" where
  "subscribe uuid r s =
     fold (\<lambda>line. resWrite r (payload line)) (logBuffer s)
       (s\<lparr>clients := clients s @ [\<lparr>client_id = uuid, client_res = r\<rparr>]\<rparr>)"

fun removeFirst :: "('a \<Rightarrow> bool) \<Rightarrow> 'a list \<Rightarrow> 'a list" where
  "removeFirst P [] = []"
| "removeFirst P (x # xs) = (if P x then xs else x # removeFirst P xs)"

definition connectionClosed :: "string \<Rightarrow> server \<Rightarrow> server" where
  "connectionClosed uuid s = s\<lparr>clients := removeFirst (\<lambda>c. client_id c = uuid) (clients s)\<rparr>"

subsection \<open>The session registry\<close>

text \<open>
  \<^verbatim>\<open>saveSessions\<close>: the whole document is read (an absent or unreadable one is the empty
  list), updated and written back.
\<close>

definition readSessions :: "server \<Rightarrow> SessionRecord list" where
  "readSessions s = (case sessionsFile s of Some (Sessions sessions) \<Rightarrow> sessions | _ \<Rightarrow> [])"

definition saveSessions :: "(SessionRecord list \<Rightarrow> SessionRecord list) \<Rightarrow> server \<Rightarrow> server" where
  "saveSessions update s = s\<lparr>sessionsFile := Some (Sessions (update (readSessions s)))\<rparr>"

subsection \<open>The run supervisor\<close>

text \<open>\<^verbatim>\<open>Buffer.toString("base64url")\<close>: base 64 with \<^verbatim>\<open>-\<close> and \<^verbatim>\<open>_\<close>, without padding.\<close>

definition base64urlAlphabet :: string where
  "base64urlAlphabet = ''ABCDEFGHIJKLMNOPQRSTUVWXYZabcdefghijklmnopqrstuvwxyz0123456789-_''"

definition sextet :: "nat \<Rightarrow> char" where
  "sextet n = base64urlAlphabet ! n"

fun base64url :: "string \<Rightarrow> string" where
  "base64url (a # b # c # bytes) =
     (let x = (of_char a :: nat); y = (of_char b :: nat); z = (of_char c :: nat)
      in sextet (x div 4) # sextet (x mod 4 * 16 + y div 16)
         # sextet (y mod 16 * 4 + z div 64) # sextet (z mod 64) # base64url bytes)"
| "base64url [a, b] =
     (let x = (of_char a :: nat); y = (of_char b :: nat)
      in [sextet (x div 4), sextet (x mod 4 * 16 + y div 16), sextet (y mod 16 * 4)])"
| "base64url [a] =
     (let x = (of_char a :: nat)
      in [sextet (x div 4), sextet (x mod 4 * 16)])"
| "base64url [] = []"

text \<open>
  The state directory of a working directory:
  \<^verbatim>\<open>path.join(stateBaseDir, Buffer.from(workdir).toString("base64url"))\<close>. The bytes of
  the buffer are the bytes of the text.
\<close>

definition stateDirFor :: "config \<Rightarrow> string \<Rightarrow> string" where
  "stateDirFor cfg wd = path_join [stateBaseDir cfg, base64url wd]"

text \<open>\<^verbatim>\<open>normalizeWorkdir\<close>: no input or an empty one is the default working directory.\<close>

definition normalizeWorkdir :: "config \<Rightarrow> string option \<Rightarrow> string" where
  "normalizeWorkdir cfg input =
     (case input of
        None \<Rightarrow> defaultWorkdir cfg
      | Some i \<Rightarrow>
          if i = [] then defaultWorkdir cfg
          else if isAbsolute i then i
          else path_resolve (serverCwd cfg) [defaultWorkdir cfg, i])"

text \<open>
  The errors a call of \<^verbatim>\<open>startSession\<close> ends with: the two it throws itself,
  \<^verbatim>\<open>A run is already in progress\<close> and \<^verbatim>\<open>Workdir not found: ...\<close>, and those thrown by what
  it calls, \<^verbatim>\<open>fs.mkdirSync\<close>, \<^verbatim>\<open>saveSessions\<close> and \<^verbatim>\<open>spawn\<close>. The route \<^verbatim>\<open>/api/start\<close> catches
  each of them and answers with status 400.
\<close>

datatype startError =
    AlreadyRunning
  | WorkdirNotFound string
  | MkdirFailed string
  | SaveFailed
  | SpawnFailed

text \<open>
  What the system does to one call of \<^verbatim>\<open>startSession\<close>, beyond the file tree:
  \<open>saveThrows\<close>, the registry document cannot be rewritten (it holds a JSON value that
  cannot be spread, or the write is refused; the document stays as it is), and
  \<open>spawnThrows\<close>, \<^verbatim>\<open>spawn\<close> throws instead of returning a child (an argument with a NUL
  byte, a command line beyond the limit of the system, no memory).
\<close>

record faults =
  saveThrows :: bool
  spawnThrows :: bool

text \<open>
  \<^verbatim>\<open>startSession\<close>. \<open>uuid\<close> is the id \<^verbatim>\<open>randomUUID()\<close> returns, \<open>now\<close> the time stamp of
  \<^verbatim>\<open>new Date().toISOString()\<close> and \<open>os\<close> what the system does to the call. The result is
  the error thrown, if any, and the state as the call leaves it: an error thrown by
  \<^verbatim>\<open>saveSessions\<close> comes after the buffer was reset and the current session assigned, one
  thrown by \<^verbatim>\<open>spawn\<close> after the record was appended and the three lines broadcast, and
  both leave \<open>child\<close> unset.
\<close>

definition startSession ::
  "config \<Rightarrow> string \<Rightarrow> int \<Rightarrow> string option \<Rightarrow> bool \<Rightarrow> string \<Rightarrow> string \<Rightarrow> faults \<Rightarrow> server
     \<Rightarrow> startError option \<times> server" where
  "startSession cfg g maxIter workdirInput createIfMissing uuid now os s =
     (if child s \<noteq> None then (Some AlreadyRunning, s)
      else
        (let wd = normalizeWorkdir cfg workdirInput
         in if \<not> existsSync (serverCwd cfg) wd (fsys s) \<and> \<not> createIfMissing
            then (Some (WorkdirNotFound wd), s)
            else
              (case (if \<not> existsSync (serverCwd cfg) wd (fsys s)
                     then mkdirSync (serverCwd cfg) wd (fsys s) else Done (fsys s)) of
                 Thrown t \<Rightarrow> (Some (MkdirFailed wd), s\<lparr>fsys := t\<rparr>)
               | Done t1 \<Rightarrow>
                   (let sd = stateDirFor cfg wd
                    in case mkdirSync (serverCwd cfg) sd t1 of
                         Thrown t \<Rightarrow> (Some (MkdirFailed sd), s\<lparr>fsys := t\<rparr>)
                       | Done t2 \<Rightarrow>
                           (let s3 = s\<lparr>fsys := t2, logBuffer := []\<rparr>;
                                session = \<lparr>sess_id = uuid, sess_goal = g, sess_maxIterations = maxIter,
                                           sess_workdir = wd, sess_stateDir = sd, startedAt = now,
                                           endedAt = None, status = running, sess_threadId = None\<rparr>;
                                s4 = s3\<lparr>currentSession := Some session\<rparr>
                            in if saveThrows os then (Some SaveFailed, s4)
                               else
                                 (let s5 = saveSessions (\<lambda>sessions. sessions @ [session]) s4;
                                      s6 = broadcast (''[milhouse] Starting run'' @ [CHR 0xE2, CHR 0x80, CHR 0xA6]) s5;
                                      s7 = broadcast (''[milhouse] workdir: '' @ wd) s6;
                                      s8 = broadcast (''[milhouse] state dir: '' @ sd) s7;
                                      args = loopRunnerArgs cfg @
                                               [''--goal'', g, ''--max-iterations'', numberToString maxIter,
                                                ''--workdir'', wd, ''--state-dir'', sd]
                                  in if spawnThrows os then (Some SpawnFailed, s8)
                                     else (None, s8\<lparr>child := Some (loopRunnerCommand cfg, args)\<rparr>)))))))"

text \<open>
  The handlers of the child's output. \<open>splitLines\<close> is \<^verbatim>\<open>split(/\r?\n/)\<close>, and
  \<open>threadMatch\<close> the first group of the first match of \<^verbatim>\<open>/thread:\s*([0-9a-zA-Z-]+)/\<close>.
\<close>

definition dropCarriageReturn :: "string \<Rightarrow> string" where
  "dropCarriageReturn l = (if l \<noteq> [] \<and> last l = CHR 0x0D then butlast l else l)"

definition splitLines :: "string \<Rightarrow> string list" where
  "splitLines text =
     (let pieces = splitOn (CHR 0x0A) text
      in map dropCarriageReturn (butlast pieces) @ [last pieces])"

definition isHandleChar :: "char \<Rightarrow> bool" where
  "isHandleChar c =
     (let n = (of_char c :: nat)
      in (48 \<le> n \<and> n \<le> 57) \<or> (65 \<le> n \<and> n \<le> 90) \<or> (97 \<le> n \<and> n \<le> 122) \<or> n = 45)"

definition threadAt :: "string \<Rightarrow> string option" where
  "threadAt s =
     (case stripPrefix ''thread:'' s of
        None \<Rightarrow> None
      | Some r \<Rightarrow>
          (let t = takeWhile isHandleChar (skipWhiteSpace r)
           in if t = [] then None else Some t))"

fun threadMatch :: "string \<Rightarrow> string option" where
  "threadMatch [] = threadAt []"
| "threadMatch (c # s) = (case threadAt (c # s) of Some t \<Rightarrow> Some t | None \<Rightarrow> threadMatch s)"

definition onStdoutLine :: "string \<Rightarrow> server \<Rightarrow> server" where
  "onStdoutLine l s =
     (let s1 = broadcast l s
      in case threadMatch l of
           None \<Rightarrow> s1
         | Some t \<Rightarrow>
             (case currentSession s1 of
                None \<Rightarrow> s1
              | Some cs \<Rightarrow> s1\<lparr>currentSession := Some (cs\<lparr>sess_threadId := Some t\<rparr>)\<rparr>))"

definition onStdout :: "string \<Rightarrow> server \<Rightarrow> server" where
  "onStdout chunk s = fold onStdoutLine (filter (\<lambda>l. l \<noteq> []) (splitLines chunk)) s"

definition onStderr :: "string \<Rightarrow> server \<Rightarrow> server" where
  "onStderr chunk s =
     fold (\<lambda>l. broadcast (''[stderr] '' @ l)) (filter (\<lambda>l. l \<noteq> []) (splitLines chunk)) s"

text \<open>
  The \<^verbatim>\<open>exit\<close> handler of the child: \<open>code\<close> and \<open>signal\<close> are \<open>None\<close> for \<^verbatim>\<open>null\<close>. The
  registry document it rewrites is the one the start of this run has written.
\<close>

definition exitStatus :: "int option \<Rightarrow> string option \<Rightarrow> SessionStatus" where
  "exitStatus code signal =
     (if code = Some 0 then succeeded else if signal = Some ''SIGTERM'' then stopped else failed)"

definition onExit :: "int option \<Rightarrow> string option \<Rightarrow> string \<Rightarrow> server \<Rightarrow> server" where
  "onExit code signal now s =
     (let s1 = broadcast (''[exit] code='' @ (case code of None \<Rightarrow> ''null'' | Some c \<Rightarrow> numberToString c)
                            @ '' signal='' @ (case signal of None \<Rightarrow> ''null'' | Some sig \<Rightarrow> sig)) s;
          s2 = (case currentSession s1 of
                  None \<Rightarrow> s1
                | Some cs \<Rightarrow>
                    (let ended = cs\<lparr>status := exitStatus code signal, endedAt := Some now\<rparr>
                     in saveSessions (map (\<lambda>r. if sess_id r = sess_id ended then ended else r))
                          (s1\<lparr>currentSession := Some ended\<rparr>)))
      in s2\<lparr>child := None\<rparr>)"

text \<open>
  \<^verbatim>\<open>stopSession\<close> sends the default signal of \<^verbatim>\<open>child.kill()\<close> to a running child and changes
  nothing in the server; what it brings about arrives later as the child's \<^verbatim>\<open>exit\<close>.
\<close>

definition stopSession :: "server \<Rightarrow> string option" where
  "stopSession s = (if child s \<noteq> None then Some ''SIGTERM'' else None)"

text \<open>
  \<^verbatim>\<open>createServerContext\<close> over what is in the file system: the base directory is made,
  and the state is the one the variables are declared with. \<open>None\<close> is a context that
  does not come up because \<^verbatim>\<open>fs.mkdirSync\<close> throws; the loop runner is taken as found.
\<close>

definition createServerContext :: "config \<Rightarrow> fileSystem \<Rightarrow> document option \<Rightarrow> server option" where
  "createServerContext cfg t doc =
     (case mkdirSync (serverCwd cfg) (stateBaseDir cfg) t of
        Thrown t' \<Rightarrow> None
      | Done t' \<Rightarrow>
          Some \<lparr>clients = [], child = None, currentSession = None, logBuffer = [],
                sessionsFile = doc, fsys = t', responses = (\<lambda>r. []), published = []\<rparr>)"

text \<open>
  What happens to a server: a call of \<^verbatim>\<open>/api/start\<close>, output and exit of the child, a call
  of \<^verbatim>\<open>/api/stop\<close>, an observer that connects or goes, and the end of the server process
  followed by a new one over the same file system. An event that cannot happen leaves
  the state as it is: the child's \<^verbatim>\<open>exit\<close> comes once per child, so only while \<open>child\<close> is
  set, and a new process takes over only when its context comes up.
\<close>

datatype event =
    Start string int "string option" bool string string faults
  | ChildStdout string
  | ChildStderr string
  | ChildExit "int option" "string option" string
  | Stop
  | Connect string nat
  | Disconnect string
  | Restart

fun step :: "config \<Rightarrow> event \<Rightarrow> server \<Rightarrow> server" where
  "step cfg (Start g maxIter workdirInput createIfMissing uuid now os) s =
     snd (startSession cfg g maxIter workdirInput createIfMissing uuid now os s)"
| "step cfg (ChildStdout chunk) s = onStdout chunk s"
| "step cfg (ChildStderr chunk) s = onStderr chunk s"
| "step cfg (ChildExit code signal now) s = (if child s = None then s else onExit code signal now s)"
| "step cfg Stop s = s"
| "step cfg (Connect uuid r) s = subscribe uuid r s"
| "step cfg (Disconnect uuid) s = connectionClosed uuid s"
| "step cfg Restart s =
     (case createServerContext cfg (fsys s) (sessionsFile s) of None \<Rightarrow> s | Some s' \<Rightarrow> s')"

definition run :: "config \<Rightarrow> event list \<Rightarrow> server \<Rightarrow> server" where
  "run cfg evs s = fold (step cfg) evs s"
section \<open>A sample run\<close>

text \<open>
  A concrete setting on which the theorems below are exercised: the arguments of a run,
  and a turn executor that answers every turn with the handle \<open>h\<close> and, when \<open>plan\<close> is
  given, writes that text to the plan file.
\<close>

definition sampleArgs :: Args where
  "sampleArgs =
     \<lparr>goal = ''add a health endpoint'', maxIterations = 2,
      workdir = ''/tmp/proj'', stateDir = ''/tmp/state''\<rparr>"

definition sampleTurn :: "string option \<Rightarrow> RunTurnResult" where
  "sampleTurn h = \<lparr>threadId = h, finalResponse = ''ok'', items = ''[]'', usage = ''{}''\<rparr>"

definition sampleExt :: "string option \<Rightarrow> string option \<Rightarrow> externals" where
  "sampleExt h plan =
     \<lparr>codex = (\<lambda>k start opts fs.
                 Inr (sampleTurn h,
                      case plan of None \<Rightarrow> fs | Some t \<Rightarrow> fs(planPath sampleArgs \<mapsto> t))),
      toNumber = (\<lambda>v. if v = ''-3'' then Some (- 3) else if v = ''2'' then Some 2 else None),
      stringReplaceAll = (\<lambda>template key v. template),
      stringify = finalResponse,
      cwd = ''/srv'',
      moduleDir = ''/opt/millhouse/dist/src''\<rparr>"

definition emptyWorld :: world where
  "emptyWorld = \<lparr>files = Map.empty, tree = \<lparr>entries = (\<lambda>d. None), refused = (\<lambda>d. False)\<rparr>, stdout = [], turnLog = [], writeLog = []\<rparr>"

text \<open>A server context for the same purpose, and the notions its statements use.\<close>

definition sampleConfig :: config where
  "sampleConfig =
     \<lparr>defaultWorkdir = ''/home/u'', stateBaseDir = ''/var/millhouse'',
      loopRunnerCommand = ''node'', loopRunnerArgs = [''/opt/millhouse/dist/src/loop-runner.js''],
      serverCwd = ''/home/u''\<rparr>"

text \<open>
  A file system with the directories \<^verbatim>\<open>/tmp\<close>, \<^verbatim>\<open>/tmp/proj\<close> and \<^verbatim>\<open>/var\<close> and the file
  \<^verbatim>\<open>/tmp/notes\<close>, in which nothing may be made under \<^verbatim>\<open>/tmp/locked\<close>; and the server
  context that comes up over it, with no registry document yet.
\<close>

definition sampleTree :: fileSystem where
  "sampleTree =
     \<lparr>entries = (\<lambda>d. if d \<in> set [[''tmp''], [''tmp'', ''proj''], [''var'']] then Some Directory
                      else if d = [''tmp'', ''notes''] then Some NonDirectory else None),
      refused = (\<lambda>d. take 2 d = [''tmp'', ''locked''])\<rparr>"

definition sampleServer :: server where
  "sampleServer =
     \<lparr>clients = [], child = None, currentSession = None, logBuffer = [],
      sessionsFile = None,
      fsys = sampleTree\<lparr>entries := (entries sampleTree)([''var'', ''millhouse''] \<mapsto> Directory)\<rparr>,
      responses = (\<lambda>r. []), published = []\<rparr>"

text \<open>
  Two calls of \<^verbatim>\<open>/api/start\<close> for the same working directory that the system lets through,
  and one whose goal has a NUL byte, so that \<^verbatim>\<open>spawn\<close> throws.
\<close>

definition noFaults :: faults where
  "noFaults = \<lparr>saveThrows = False, spawnThrows = False\<rparr>"

definition sampleStart :: event where
  "sampleStart = Start ''add a health endpoint'' 0 (Some ''/tmp/proj'') False ''id-1''
                   ''2026-01-01T10:00:00.000Z'' noFaults"

definition sampleRestart :: event where
  "sampleRestart = Start ''add a health endpoint'' 0 (Some ''/tmp/proj'') False ''id-2''
                     ''2026-01-01T11:00:00.000Z'' noFaults"

definition sampleSpawnThrows :: event where
  "sampleSpawnThrows = Start (''add a health'' @ [CHR 0x00] @ ''endpoint'') 0 (Some ''/tmp/proj'') False ''id-1''
                         ''2026-01-01T10:00:00.000Z'' \<lparr>saveThrows = False, spawnThrows = True\<rparr>"

definition runningCount :: "server \<Rightarrow> nat" where
  "runningCount s = length [r \<leftarrow> readSessions s. status r = running]"

definition endedIffNotRunning :: "SessionRecord \<Rightarrow> bool" where
  "endedIffNotRunning r = ((endedAt r \<noteq> None) = (status r \<noteq> running))"

definition publishedSince :: "server \<Rightarrow> server \<Rightarrow> string list" where
  "publishedSince s s' = drop (length (published s)) (published s')"

text \<open>
  The record \<^verbatim>\<open>startSession\<close> makes for a working directory, the command line it spawns,
  and the state it has reached when it calls \<^verbatim>\<open>spawn\<close>, over the file system \<open>t\<close> that
  making the directories has left.
\<close>

definition newSession :: "config \<Rightarrow> string \<Rightarrow> int \<Rightarrow> string \<Rightarrow> string \<Rightarrow> string \<Rightarrow> SessionRecord" where
  "newSession cfg g maxIter wd uuid now =
     \<lparr>sess_id = uuid, sess_goal = g, sess_maxIterations = maxIter,
      sess_workdir = wd, sess_stateDir = stateDirFor cfg wd, startedAt = now,
      endedAt = None, status = running, sess_threadId = None\<rparr>"

definition commandLine :: "config \<Rightarrow> string \<Rightarrow> int \<Rightarrow> string \<Rightarrow> string \<times> string list" where
  "commandLine cfg g maxIter wd =
     (loopRunnerCommand cfg,
      loopRunnerArgs cfg @ [''--goal'', g, ''--max-iterations'', numberToString maxIter,
                            ''--workdir'', wd, ''--state-dir'', stateDirFor cfg wd])"

definition announced :: "config \<Rightarrow> string \<Rightarrow> int \<Rightarrow> string \<Rightarrow> string \<Rightarrow> string \<Rightarrow> fileSystem \<Rightarrow> server \<Rightarrow> server" where
  "announced cfg g maxIter wd uuid now t s =
     broadcast (''[milhouse] state dir: '' @ stateDirFor cfg wd)
       (broadcast (''[milhouse] workdir: '' @ wd)
         (broadcast (''[milhouse] Starting run'' @ [CHR 0xE2, CHR 0x80, CHR 0xA6])
           (saveSessions (\<lambda>sessions. sessions @ [newSession cfg g maxIter wd uuid now])
              (s\<lparr>fsys := t, logBuffer := [],
                 currentSession := Some (newSession cfg g maxIter wd uuid now)\<rparr>))))"

text \<open>An event is a call of start at which \<^verbatim>\<open>spawn\<close> throws.\<close>

fun spawnFails :: "event \<Rightarrow> bool" where
  "spawnFails (Start g maxIter workdirInput createIfMissing uuid now os) = spawnThrows os"
| "spawnFails e = False"

text \<open>
  Two records of the same run: the handlers of the child's output change a record between
  start and exit only in its conversation handle.
\<close>

definition sameRun :: "SessionRecord \<Rightarrow> SessionRecord \<Rightarrow> bool" where
  "sameRun a b = (sess_id b = sess_id a \<and> status b = status a \<and> endedAt b = endedAt a)"

definition sameCore :: "server \<Rightarrow> server \<Rightarrow> bool" where
  "sameCore s s' = (child s' = child s \<and> readSessions s' = readSessions s
                    \<and> rel_option sameRun (currentSession s) (currentSession s'))"

text \<open>The record of a run as its \<^verbatim>\<open>exit\<close> handler leaves it.\<close>

definition finalize :: "int option \<Rightarrow> string option \<Rightarrow> string \<Rightarrow> SessionRecord \<Rightarrow> SessionRecord" where
  "finalize code signal now cs = cs\<lparr>status := exitStatus code signal, endedAt := Some now\<rparr>"

text \<open>
  What holds of the registry between the events of one server process: without a child no
  record is running, and with a child every running record carries the id of the current
  session.
\<close>

definition oneRunning :: "server \<Rightarrow> bool" where
  "oneRunning s =
     (case child s of
        None \<Rightarrow> (\<forall>r \<in> set (readSessions s). status r \<noteq> running)
      | Some _ \<Rightarrow> (\<exists>cs. currentSession s = Some cs
                     \<and> (\<forall>r \<in> set (readSessions s). status r = running \<longrightarrow> sess_id r = sess_id cs)
                     \<and> runningCount s \<le> 1))"

text \<open>
  Every record of the registry, and the current session, has \<^verbatim>\<open>endedAt\<close> set exactly when
  its status is not \<^verbatim>\<open>running\<close>.
\<close>

definition recordsConsistent :: "server \<Rightarrow> bool" where
  "recordsConsistent s =
     ((\<forall>r \<in> set (readSessions s). endedIffNotRunning r)
      \<and> (\<forall>cs. currentSession s = Some cs \<longrightarrow> endedIffNotRunning cs))"

text \<open>
  From \<open>s\<close> to \<open>s'\<close> the server has only broadcast: the clients are the same, and every
  line published in between went once to each client's response, in order (and, with
  \<open>keep\<close>, joined the buffer).
\<close>

definition emits :: "bool \<Rightarrow> server \<Rightarrow> server \<Rightarrow> bool" where
  "emits keep s s' =
     (clients s' = clients s
      \<and> (\<exists>ls. published s' = published s @ ls
              \<and> (keep \<longrightarrow> logBuffer s' = logBuffer s @ ls)
              \<and> (\<forall>r. responses s' r
                       = responses s r
                         @ concat (map (\<lambda>l. replicate (length [c \<leftarrow> clients s. client_res c = r]) (payload l)) ls))))"

text \<open>
  The view of the observer with id \<open>i\<close> and response \<open>r\<close> since the state \<open>sb\<close>: it is the
  one client that writes to \<open>r\<close>, and \<open>r\<close> has received the lines published since \<open>sb\<close>,
  each once and in order. \<open>buffered\<close>: the lines published from \<open>s\<close> to \<open>s'\<close> have joined
  the buffer.
\<close>

definition viewOf :: "string \<Rightarrow> nat \<Rightarrow> server \<Rightarrow> server \<Rightarrow> bool" where
  "viewOf i r sb s =
     (length [c \<leftarrow> clients s. client_res c = r] = 1
      \<and> (\<forall>c \<in> set (clients s). client_res c = r \<longrightarrow> client_id c = i)
      \<and> (\<exists>ls. published s = published sb @ ls \<and> responses s r = responses sb r @ map payload ls))"

definition buffered :: "server \<Rightarrow> server \<Rightarrow> bool" where
  "buffered s s' = (\<exists>ls. published s' = published s @ ls \<and> logBuffer s' = logBuffer s @ ls)"

text \<open>
  The lines an event of the child's output publishes: the non-empty lines of a chunk of
  standard output, and those of a chunk of standard error behind the tag \<^verbatim>\<open>[stderr] \<close>.
  \<open>outputOnly\<close> holds of the events that publish these lines and no others: the child's
  output, stop requests, and observers that come and go.
\<close>

fun linesOf :: "event \<Rightarrow> string list" where
  "linesOf (ChildStdout chunk) = filter (\<lambda>l. l \<noteq> []) (splitLines chunk)"
| "linesOf (ChildStderr chunk) = map (\<lambda>l. ''[stderr] '' @ l) (filter (\<lambda>l. l \<noteq> []) (splitLines chunk))"
| "linesOf e = []"

fun outputOnly :: "event \<Rightarrow> bool" where
  "outputOnly (Start g maxIter workdirInput createIfMissing uuid now os) = False"
| "outputOnly (ChildExit code signal now) = False"
| "outputOnly Restart = False"
| "outputOnly e = True"

section \<open>Properties of texts and paths\<close>

lemma leading_whiteSpace_self: "w \<in> set whiteSpace \<Longrightarrow> leading whiteSpace (w @ r) = Some w"
  unfolding whiteSpace_def leading_def by (simp only: set_simps insert_iff empty_iff) (elim disjE; simp)

lemma leading_Some: "leading pats s = Some w \<Longrightarrow> w \<in> set pats \<and> w \<noteq> [] \<and> (\<exists>r. s = w @ r)"
  by (auto simp: leading_def find_Some_iff prefix_def)

lemma skipLeading_None: "leading pats s = None \<Longrightarrow> skipLeading pats s = s"
  by (simp add: skipLeading.simps)

lemma skipLeading_decomp:
  "\<exists>ws. set ws \<subseteq> set pats \<and> s = concat ws @ skipLeading pats s"
proof (induction pats s rule: skipLeading.induct)
  case (1 pats s)
  show ?case
  proof (cases "leading pats s")
    case None
    then have "set [] \<subseteq> set pats \<and> s = concat [] @ skipLeading pats s"
      by (simp add: skipLeading_None)
    then show ?thesis by blast
  next
    case (Some w)
    from leading_Some[OF Some] obtain r where w: "w \<in> set pats" and s: "s = w @ r" by blast
    from 1[OF Some] obtain ws where ws: "set ws \<subseteq> set pats"
      and d: "drop (length w) s = concat ws @ skipLeading pats (drop (length w) s)" by blast
    have sk: "skipLeading pats s = skipLeading pats (drop (length w) s)"
      using Some by (subst skipLeading.simps) simp
    have "set (w # ws) \<subseteq> set pats \<and> s = concat (w # ws) @ skipLeading pats s"
      using w ws d s sk by simp
    then show ?thesis by blast
  qed
qed

lemma leading_DONE: "leading whiteSpace (''DONE'' @ t) = None"
  unfolding whiteSpace_def leading_def by simp

lemma skipWhiteSpace_concat:
  "set wss \<subseteq> set whiteSpace \<Longrightarrow> skipWhiteSpace (concat wss @ ''DONE'' @ t) = ''DONE'' @ t"
proof (induction wss)
  case Nil
  show ?case using leading_DONE[of t] by (simp add: skipWhiteSpace_def skipLeading_None)
next
  case (Cons w wss)
  then have w: "w \<in> set whiteSpace" and IH: "skipWhiteSpace (concat wss @ ''DONE'' @ t) = ''DONE'' @ t"
    by auto
  have "leading whiteSpace (w @ (concat wss @ ''DONE'' @ t)) = Some w"
    by (rule leading_whiteSpace_self[OF w])
  then have "skipLeading whiteSpace (w @ (concat wss @ ''DONE'' @ t))
      = skipLeading whiteSpace (concat wss @ ''DONE'' @ t)"
    by (subst skipLeading.simps) simp
  then show ?case using IH by (simp add: skipWhiteSpace_def)
qed

lemma stripPrefix_Some: "stripPrefix p s = Some r \<longleftrightarrow> s = p @ r"
  by (auto simp: stripPrefix_def prefix_def)

lemma doneMarkerAt_iff:
  "doneMarkerAt s \<longleftrightarrow> (\<exists>ws t. s = ''STATUS:'' @ ws @ ''DONE'' @ t \<and> whiteSpaceRun ws \<and> wordBoundary t)"
proof
  assume "doneMarkerAt s"
  then obtain r t where r: "s = ''STATUS:'' @ r" and t: "skipWhiteSpace r = ''DONE'' @ t" and b: "wordBoundary t"
    unfolding doneMarkerAt_def wordBoundary_def
    by (auto split: option.splits simp: stripPrefix_Some simp del: append.simps)
  from skipLeading_decomp[of whiteSpace r] obtain wss where
    "set wss \<subseteq> set whiteSpace" "r = concat wss @ skipWhiteSpace r"
    unfolding skipWhiteSpace_def by blast
  then have "s = ''STATUS:'' @ concat wss @ ''DONE'' @ t \<and> whiteSpaceRun (concat wss)"
    using r t unfolding whiteSpaceRun_def by auto
  then show "\<exists>ws t. s = ''STATUS:'' @ ws @ ''DONE'' @ t \<and> whiteSpaceRun ws \<and> wordBoundary t"
    using b by blast
next
  assume "\<exists>ws t. s = ''STATUS:'' @ ws @ ''DONE'' @ t \<and> whiteSpaceRun ws \<and> wordBoundary t"
  then obtain wss t where s: "s = ''STATUS:'' @ concat wss @ ''DONE'' @ t"
    and w: "set wss \<subseteq> set whiteSpace" and b: "wordBoundary t"
    unfolding whiteSpaceRun_def by blast
  define r where "r = concat wss @ ''DONE'' @ t"
  have 1: "stripPrefix ''STATUS:'' s = Some r"
    unfolding stripPrefix_Some s r_def ..
  have 2: "stripPrefix ''DONE'' (skipWhiteSpace r) = Some t"
    unfolding r_def skipWhiteSpace_concat[OF w] stripPrefix_Some ..
  show "doneMarkerAt s"
    using b by (simp add: doneMarkerAt_def 1 2 wordBoundary_def)
qed

lemma doneMarkerTest_iff: "doneMarkerTest s \<longleftrightarrow> (\<exists>pre x. s = pre @ x \<and> doneMarkerAt x)"
proof (induction s)
  case Nil
  then show ?case by simp
next
  case (Cons c s)
  show ?case
  proof
    assume "doneMarkerTest (c # s)"
    then consider "doneMarkerAt (c # s)" | "doneMarkerTest s" by auto
    then show "\<exists>pre x. c # s = pre @ x \<and> doneMarkerAt x"
    proof cases
      case 1
      then have "c # s = [] @ (c # s) \<and> doneMarkerAt (c # s)" by simp
      then show ?thesis by blast
    next
      case 2
      with Cons obtain pre x where "s = pre @ x" "doneMarkerAt x" by blast
      then have "c # s = (c # pre) @ x \<and> doneMarkerAt x" by simp
      then show ?thesis by blast
    qed
  next
    assume "\<exists>pre x. c # s = pre @ x \<and> doneMarkerAt x"
    then obtain pre x where px: "c # s = pre @ x" and x: "doneMarkerAt x" by blast
    show "doneMarkerTest (c # s)"
    proof (cases pre)
      case Nil
      then have "x = c # s" using px by simp
      then show ?thesis using x by simp
    next
      case (Cons a pre')
      then have "s = pre' @ x" using px by simp
      then have "doneMarkerTest s" using x \<open>doneMarkerTest s = (\<exists>pre x. s = pre @ x \<and> doneMarkerAt x)\<close> by blast
      then show ?thesis by simp
    qed
  qed
qed

lemma splitOn_nonempty: "splitOn sep s \<noteq> []"
  by (induction s) (auto split: list.splits)

lemma splitOn_plain: "sep \<notin> set n \<Longrightarrow> splitOn sep n = [n]"
  by (induction n) auto

lemma splitOn_append: "splitOn sep (a @ sep # b) = splitOn sep a @ splitOn sep b"
  by (induction a) (auto split: list.splits simp: splitOn_nonempty)

lemma normalizeSegments_append:
  "normalizeSegments allow res (xs @ ys) = normalizeSegments allow (normalizeSegments allow res xs) ys"
  by (induction xs arbitrary: res) auto

lemma normalizeSegments_plain: "plainName n \<Longrightarrow> normalizeSegments allow res [n] = res @ [n]"
  by (auto simp: plainName_def)

lemma joinWith_snoc: "joinWith sep (ps @ [n]) = (if ps = [] then n else joinWith sep ps @ sep @ n)"
  by (cases ps) (auto simp: joinWith_def)

lemma plainName_ends: "plainName n \<Longrightarrow> hd n \<noteq> CHR ''/'' \<and> last n \<noteq> CHR ''/''"
  unfolding plainName_def by (metis hd_in_set last_in_set)

lemma path_join_plain: "plainName n \<Longrightarrow> path_join [d, n] = dirPrefix d @ n"
proof (cases "d = []")
  case True
  assume "plainName n"
  then show ?thesis using True plainName_ends[of n]
    by (auto simp: path_join_def normalize_def normalizeString_def plainName_def splitOn_plain
        joinWith_def dirPrefix_def Let_def)
next
  case False
  assume n: "plainName n"
  have j: "joinWith ''/'' [d, n] = d @ CHR ''/'' # n" by (simp add: joinWith_def)
  have l: "last (d @ CHR ''/'' # n) \<noteq> CHR ''/''" using n plainName_ends[of n] by (auto simp: plainName_def)
  have h: "hd (d @ CHR ''/'' # n) = hd d" using False by simp
  have s: "normalizeSegments allow [] (splitOn CHR ''/'' (d @ CHR ''/'' # n))
      = normalizeSegments allow [] (splitOn CHR ''/'' d) @ [n]" for allow
    using n by (simp add: splitOn_append normalizeSegments_append splitOn_plain plainName_def)
  have nn: "n \<noteq> []" using n by (simp add: plainName_def)
  have ln: "last n \<noteq> CHR ''/''" using plainName_ends[OF n] by simp
  show ?thesis using False nn ln
    by (simp add: path_join_def j normalize_def l h normalizeString_def s joinWith_snoc dirPrefix_def Let_def)
qed

lemma path_join_inject: "plainName n \<Longrightarrow> plainName m \<Longrightarrow> path_join [d, n] = path_join [d, m] \<longleftrightarrow> n = m"
  by (simp add: path_join_plain)

section \<open>Properties of the loop engine\<close>

lemma stateFiles_plain:
  "plainName ''thread_id''" "plainName ''build_out.log''" "plainName ''IMPLEMENTATION_PLAN.md''"
  "plainName ''plan_out.log''" "plainName ''plan_prompt.md''" "plainName ''build_prompt.md''"
  by (simp_all add: plainName_def)

lemma stateFiles_distinct:
  "threadFile args \<noteq> planPath args" "buildOut args \<noteq> planPath args"
  "buildOut args \<noteq> threadFile args" "planOut args \<noteq> threadFile args"
  by (simp_all add: threadFile_def planPath_def buildOut_def planOut_def path_join_inject stateFiles_plain)

lemma buildTurn_eq:
  "buildTurn ext args p w =
     (case codex ext (length (turnLog w)) (threadFor (buildOptions args p w)) (buildOptions args p w) (files w) of
        Inl m \<Rightarrow> Inl (TurnFailed m)
      | Inr (turn, fs) \<Rightarrow>
          Inr (persistThread args turn
                 (writeFileSync (buildOut args) (stringify ext turn)
                    (w\<lparr>files := fs, turnLog := turnLog w @ [buildOptions args p w]\<rparr>))))"
  by (simp add: buildTurn_def runTurn_def split: sum.splits prod.splits)

lemma persistThread_frame:
  "turnLog (persistThread args turn w) = turnLog w"
  "q \<noteq> threadFile args \<Longrightarrow> files (persistThread args turn w) q = files w q"
  "[e \<leftarrow> writeLog (persistThread args turn w). fst e = buildOut args] = [e \<leftarrow> writeLog w. fst e = buildOut args]"
  using stateFiles_distinct(3)[of args]
  by (auto simp: persistThread_def stdoutWrite_def writeFileSync_def split: option.splits)

lemma buildTurn_result:
  assumes "codex ext (length (turnLog w)) (threadFor (buildOptions args p w)) (buildOptions args p w) (files w) = Inr (turn, fs)"
  shows "\<exists>w1. buildTurn ext args p w = Inr w1
           \<and> turnLog w1 = turnLog w @ [buildOptions args p w]
           \<and> files w1 (planPath args) = fs (planPath args)
           \<and> planMarkedDone args (files w1) = planMarkedDone args fs
           \<and> [e \<leftarrow> writeLog w1. fst e = buildOut args]
                = [e \<leftarrow> writeLog w. fst e = buildOut args] @ [(buildOut args, stringify ext turn)]"
  using assms stateFiles_distinct[of args]
  by (simp add: buildTurn_eq persistThread_frame planMarkedDone_def readTextIfExists_def writeFileSync_def)

lemma loop_runs_to_cap:
  assumes pos: "0 < maxIterations args"
    and never: "\<And>k start opts fs. \<exists>turn fs'. codex ext k start opts fs = Inr (turn, fs') \<and> \<not> planMarkedDone args fs'"
  shows "iter \<le> maxIterations args \<Longrightarrow> nat (maxIterations args - iter) = n \<Longrightarrow>
     \<exists>w'. buildLoop ext args p iter w = Some (Inr w')
        \<and> (\<exists>turns. turnLog w' = turnLog w @ turns \<and> map promptText turns = replicate n p)
        \<and> length [e \<leftarrow> writeLog w'. fst e = buildOut args] = length [e \<leftarrow> writeLog w. fst e = buildOut args] + n
        \<and> last (stdout w') = ''Reached max iterations: '' @ numberToString (maxIterations args) @ [CHR 0x0A]"
proof (induction n arbitrary: iter w)
  case 0
  then have "iter = maxIterations args" by simp
  then have "loopBody ext args p iter w = Inr (Break (stdoutWrite (''Reached max iterations: '' @ numberToString (maxIterations args) @ [CHR 0x0A]) w))"
    using pos by (simp add: loopBody_def)
  then show ?case
    by (subst buildLoop.simps) (simp add: stdoutWrite_def)
next
  case (Suc n)
  then have lt: "iter < maxIterations args" by simp
  let ?o = "buildOptions args p w"
  from never obtain turn fs' where
    c: "codex ext (length (turnLog w)) (threadFor ?o) ?o (files w) = Inr (turn, fs')"
    and nd: "\<not> planMarkedDone args fs'" by blast
  from buildTurn_result[OF c] obtain w1 where
    b: "buildTurn ext args p w = Inr w1"
    and tl: "turnLog w1 = turnLog w @ [?o]"
    and pd: "planMarkedDone args (files w1) = planMarkedDone args fs'"
    and wl: "[e \<leftarrow> writeLog w1. fst e = buildOut args]
                = [e \<leftarrow> writeLog w. fst e = buildOut args] @ [(buildOut args, stringify ext turn)]"
    by blast
  define w2 where "w2 = stdoutWrite (''================ LOOP '' @ numberToString (iter + 1)
                                             @ '' ================'' @ [CHR 0x0A]) w1"
  have body: "loopBody ext args p iter w = Inr (Continue w2)"
    using lt b pd nd by (simp add: loopBody_def w2_def)
  have step: "buildLoop ext args p iter w = buildLoop ext args p (iter + 1) w2"
    by (subst buildLoop.simps) (simp add: body)
  have w2: "turnLog w2 = turnLog w @ [?o]" "writeLog w2 = writeLog w1"
    by (simp_all add: w2_def stdoutWrite_def tl)
  have "iter + 1 \<le> maxIterations args" "nat (maxIterations args - (iter + 1)) = n"
    using lt Suc.prems by simp_all
  from Suc.IH[OF this, of w2] obtain w' where
    r: "buildLoop ext args p (iter + 1) w2 = Some (Inr w')"
    and 1: "\<exists>turns. turnLog w' = turnLog w2 @ turns \<and> map promptText turns = replicate n p"
    and 3: "length [e \<leftarrow> writeLog w'. fst e = buildOut args] = length [e \<leftarrow> writeLog w2. fst e = buildOut args] + n"
    and 4: "last (stdout w') = ''Reached max iterations: '' @ numberToString (maxIterations args) @ [CHR 0x0A]"
    by blast
  have po: "promptText ?o = p" by (simp add: buildOptions_def)
  from 1 obtain turns where t: "turnLog w' = turnLog w2 @ turns" "map promptText turns = replicate n p"
    by blast
  have "turnLog w' = turnLog w @ (?o # turns) \<and> map promptText (?o # turns) = replicate (Suc n) p"
    using t w2 po by simp
  then have 5: "\<exists>turns. turnLog w' = turnLog w @ turns \<and> map promptText turns = replicate (Suc n) p"
    by blast
  have 6: "length [e \<leftarrow> writeLog w'. fst e = buildOut args]
      = length [e \<leftarrow> writeLog w. fst e = buildOut args] + Suc n"
    using 3 w2 wl by simp
  show ?case
    using step r 4 5 6 by simp
qed

lemma last_stdoutWrite: "last (stdout (stdoutWrite chunk w)) = chunk"
  by (simp add: stdoutWrite_def)

lemma first_turn_done:
  assumes "planMarkedDone args (files w)"
    and "codex ext (length (turnLog w)) (threadFor (buildOptions args p w)) (buildOptions args p w) (files w)
           = Inr (turn, fs)"
    and "fs (planPath args) = files w (planPath args)"
  shows "\<exists>w'. buildLoop ext args p 0 w = Some (Inr w')
           \<and> turnLog w' = turnLog w @ [buildOptions args p w]
           \<and> [e \<leftarrow> writeLog w'. fst e = buildOut args]
                = [e \<leftarrow> writeLog w. fst e = buildOut args] @ [(buildOut args, stringify ext turn)]
           \<and> last (stdout w') = ''Plan marked DONE. Exiting.'' @ [CHR 0x0A]"
proof -
  from buildTurn_result[OF assms(2)] obtain w1 where
    b: "buildTurn ext args p w = Inr w1"
    and tl: "turnLog w1 = turnLog w @ [buildOptions args p w]"
    and pd: "planMarkedDone args (files w1) = planMarkedDone args fs"
    and wl: "[e \<leftarrow> writeLog w1. fst e = buildOut args]
                = [e \<leftarrow> writeLog w. fst e = buildOut args] @ [(buildOut args, stringify ext turn)]"
    by blast
  have "planMarkedDone args fs" using assms(1,3) by (simp add: planMarkedDone_def readTextIfExists_def)
  then have "loopBody ext args p 0 w = Inr (Break (stdoutWrite (''Plan marked DONE. Exiting.'' @ [CHR 0x0A]) w1))"
    using b pd by (auto simp: loopBody_def)
  then have "buildLoop ext args p 0 w = Some (Inr (stdoutWrite (''Plan marked DONE. Exiting.'' @ [CHR 0x0A]) w1))"
    by (subst buildLoop.simps) simp
  then show ?thesis using tl wl by (simp add: stdoutWrite_def)
qed

lemma uncapped_break:
  assumes "maxIterations args \<le> 0" and "loopBody ext args p iter w = Inr (Break w')"
  shows "\<exists>w1. buildTurn ext args p w = Inr w1 \<and> planMarkedDone args (files w1)
          \<and> w' = stdoutWrite (''Plan marked DONE. Exiting.'' @ [CHR 0x0A]) w1"
  using assms by (auto simp: loopBody_def split: sum.splits if_splits)

lemma uncapped_ends_done:
  assumes run: "buildLoop ext args p iter w = Some (Inr w')" and m: "maxIterations args \<le> 0"
  shows "\<exists>w1. planMarkedDone args (files w1)
          \<and> w' = stdoutWrite (''Plan marked DONE. Exiting.'' @ [CHR 0x0A]) w1"
proof -
  let ?Q = "\<lambda>a r. maxIterations a \<le> 0 \<longrightarrow> (\<forall>w'. r = Inr w' \<longrightarrow> (\<exists>w1. planMarkedDone a (files w1)
          \<and> w' = stdoutWrite (''Plan marked DONE. Exiting.'' @ [CHR 0x0A]) w1))"
  define r0 where "r0 = (Inr w' :: failure + world)"
  have run0: "buildLoop ext args p iter w = Some r0" using run by (simp add: r0_def)
  have "?Q args r0"
  proof (rule buildLoop.raw_induct[where P = "\<lambda>e a q i v r. ?Q a r", OF _ run0])
    fix f e a q i v r
    assume IH: "\<And>e a q i v r. f e a q i v = Some r \<Longrightarrow> ?Q a r"
      and step: "(case loopBody e a q i v of Inl x \<Rightarrow> Some (Inl x) | Inr (Break w1) \<Rightarrow> Some (Inr w1)
                  | Inr (Continue w1) \<Rightarrow> f e a q (i + 1) w1) = Some r"
    show "?Q a r"
    proof (intro impI allI)
      fix w' assume m: "maxIterations a \<le> 0" and r: "r = Inr w'"
      show "\<exists>w1. planMarkedDone a (files w1) \<and> w' = stdoutWrite (''Plan marked DONE. Exiting.'' @ [CHR 0x0A]) w1"
      proof (cases "loopBody e a q i v")
        case (Inl x)
        then show ?thesis using step r by simp
      next
        case (Inr st)
        show ?thesis
        proof (cases st)
          case (Break w2)
          then have "w2 = w'" using step r Inr by simp
          then show ?thesis using uncapped_break[OF m, of e q i v w'] Inr Break by blast
        next
          case (Continue w2)
          then have "f e a q (i + 1) w2 = Some r" using step Inr by simp
          from IH[OF this] show ?thesis using m r by blast
        qed
      qed
    qed
  qed
  then show ?thesis using m by (simp add: r0_def)
qed

lemma uncapped_diverges:
  assumes m: "maxIterations args \<le> 0"
    and never: "\<And>k start opts fs. \<exists>turn fs'. codex ext k start opts fs = Inr (turn, fs') \<and> \<not> planMarkedDone args fs'"
  shows "buildLoop ext args p iter w = None"
proof (rule ccontr)
  assume "buildLoop ext args p iter w \<noteq> None"
  then obtain r where run: "buildLoop ext args p iter w = Some r" by blast
  let ?H = "\<lambda>e a. maxIterations a \<le> 0 \<and>
     (\<forall>k start opts fs. \<exists>turn fs'. codex e k start opts fs = Inr (turn, fs') \<and> \<not> planMarkedDone a fs')"
  have "\<not> ?H ext args"
  proof (rule buildLoop.raw_induct[where P = "\<lambda>e a q i v r. \<not> ?H e a", OF _ run])
    fix f e a q i v r
    assume IH: "\<And>e a q i v r. f e a q i v = Some r \<Longrightarrow> \<not> ?H e a"
      and step: "(case loopBody e a q i v of Inl x \<Rightarrow> Some (Inl x) | Inr (Break w1) \<Rightarrow> Some (Inr w1)
                  | Inr (Continue w1) \<Rightarrow> f e a q (i + 1) w1) = Some r"
    show "\<not> ?H e a"
    proof
      assume h: "?H e a"
      let ?o = "buildOptions a q v"
      from h obtain turn fs' where
        c: "codex e (length (turnLog v)) (threadFor ?o) ?o (files v) = Inr (turn, fs')"
        and nd: "\<not> planMarkedDone a fs'" by blast
      from buildTurn_result[OF c] obtain w1 where
        b: "buildTurn e a q v = Inr w1"
        and pd: "planMarkedDone a (files w1) = planMarkedDone a fs'" by blast
      have "\<exists>w2. loopBody e a q i v = Inr (Continue w2)"
        using h b pd nd by (auto simp: loopBody_def)
      then obtain w2 where "loopBody e a q i v = Inr (Continue w2)" by blast
      then have "f e a q (i + 1) w2 = Some r" using step by simp
      from IH[OF this] h show False by blast
    qed
  qed
  then show False using m never by blast
qed

lemma leading_Nil: "leading pats [] = None"
  by (simp add: leading_def find_None_iff)

lemma trim_Nil: "trim [] = []"
  by (simp add: trim_def skipWhiteSpace_def skipLeading_None leading_Nil)

lemma trim_nonempty: "trim g \<noteq> [] \<Longrightarrow> g \<noteq> []"
  using trim_Nil by auto

lemma path_resolve_nonempty: "path_resolve c args \<noteq> []"
  by (simp add: path_resolve_def Let_def)

lemma parseArgs_max_iterations:
  assumes "toNumber ext v = Some n" "v \<noteq> []" "trim g \<noteq> []" "d \<noteq> []"
  shows "parseArgs ext [''--goal'', g, ''--max-iterations'', v, ''--state-dir'', d]
           = Inr \<lparr>goal = g, maxIterations = n, workdir = cwd ext, stateDir = path_resolve (cwd ext) [d]\<rparr>"
  using assms trim_nonempty[of g] by (simp add: parseArgs_def path_resolve_nonempty)

lemma doneMarkerTest_statusDone: "doneMarkerTest t \<longleftrightarrow> statusDone t"
  unfolding doneMarkerTest_iff doneMarkerAt_iff statusDone_def by blast

lemma loopBody_after_turn:
  assumes "\<not> (0 < maxIterations args \<and> maxIterations args \<le> iter)" and "buildTurn ext args p w = Inr w1"
  shows "loopBody ext args p iter w =
     (if doneMarkerTest (planText args w1)
      then Inr (Break (stdoutWrite (''Plan marked DONE. Exiting.'' @ [CHR 0x0A]) w1))
      else Inr (Continue (stdoutWrite (''================ LOOP '' @ numberToString (iter + 1)
                                             @ '' ================'' @ [CHR 0x0A]) w1)))"
  using assms by (auto simp: loopBody_def planMarkedDone_def readTextIfExists_def planText_def)

lemma sample_files:
  "planPath sampleArgs = ''/tmp/state/IMPLEMENTATION_PLAN.md''"
  "buildOut sampleArgs = ''/tmp/state/build_out.log''"
  "threadFile sampleArgs = ''/tmp/state/thread_id''"
  by code_simp+

lemma sample_buildTurn:
  "buildTurn (sampleExt None (Some t)) sampleArgs ''build'' emptyWorld =
    Inr \<lparr>files = [''/tmp/state/IMPLEMENTATION_PLAN.md'' \<mapsto> t, ''/tmp/state/build_out.log'' \<mapsto> ''ok''],
         tree = \<lparr>entries = (\<lambda>d. None), refused = (\<lambda>d. False)\<rparr>,
         stdout = [],
         turnLog = [buildOptions sampleArgs ''build'' emptyWorld],
         writeLog = [(''/tmp/state/build_out.log'', ''ok'')]\<rparr>"
  by (simp add: buildTurn_eq sampleExt_def sampleTurn_def persistThread_def writeFileSync_def emptyWorld_def sample_files)





subsection \<open>The completion check\<close>

text \<open>
  Claim C1, as amended. After a build turn (the iteration cap not reached, the turn
  succeeded), the pass of the loop body ends in a \<^verbatim>\<open>break\<close> exactly when the plan file's
  content at that moment holds \<^verbatim>\<open>STATUS:\<close>, then any run of white space (none included),
  then \<^verbatim>\<open>DONE\<close> that is not directly followed by a letter, a digit or an underscore; in
  every other case the loop goes on with the next pass. An absent plan file reads as the
  empty text, and the loop goes on.
\<close>

theorem completion_check:
  assumes "\<not> (0 < maxIterations args \<and> maxIterations args \<le> iter)"
    and "buildTurn ext args p w = Inr w1"
  shows "(isBreak (loopBody ext args p iter w) \<longleftrightarrow> statusDone (planText args w1))
       \<and> (isContinue (loopBody ext args p iter w) \<longleftrightarrow> \<not> statusDone (planText args w1))
       \<and> (files w1 (planPath args) = None \<longrightarrow> isContinue (loopBody ext args p iter w))"
proof -
  have e: "\<not> statusDone []" by (simp add: statusDone_def)
  show ?thesis
    unfolding loopBody_after_turn[OF assms] doneMarkerTest_statusDone
    using e by (auto simp: isBreak_def isContinue_def planText_def)
qed

text \<open>A tab and a blank after the colon and a full stop after \<^verbatim>\<open>DONE\<close> end the loop; \<^verbatim>\<open>STATUS: READY\<close> does not.\<close>

theorem completion_check_witness:
  "isBreak (loopBody (sampleExt None (Some (''STATUS:'' @ [CHR 0x09, CHR 0x20] @ ''DONE.''))) sampleArgs ''build'' 0 emptyWorld)
   \<and> isContinue (loopBody (sampleExt None (Some ''STATUS: READY'')) sampleArgs ''build'' 0 emptyWorld)"
proof -
  have c: "\<not> (0 < maxIterations sampleArgs \<and> maxIterations sampleArgs \<le> 0)" by simp
  have 1: "statusDone (''STATUS:'' @ [CHR 0x09, CHR 0x20] @ ''DONE.'')"
  proof -
    have "whiteSpaceRun (concat [[CHR 0x09], [CHR 0x20]])"
      unfolding whiteSpaceRun_def by (intro exI[of _ "[[CHR 0x09], [CHR 0x20]]"]) (simp add: whiteSpace_def)
    then have "''STATUS:'' @ [CHR 0x09, CHR 0x20] @ ''DONE.'' = [] @ ''STATUS:'' @ [CHR 0x09, CHR 0x20] @ ''DONE'' @ ''.''
       \<and> whiteSpaceRun [CHR 0x09, CHR 0x20] \<and> wordBoundary ''.''"
      by (simp add: wordBoundary_def isWordChar_def)
    then show ?thesis unfolding statusDone_def by blast
  qed
  have 2: "\<not> statusDone ''STATUS: READY''"
    unfolding doneMarkerTest_statusDone[symmetric] by code_simp
  show ?thesis
    using completion_check[OF c sample_buildTurn[of "''STATUS:'' @ [CHR 0x09, CHR 0x20] @ ''DONE.''"]]
      completion_check[OF c sample_buildTurn[of "''STATUS: READY''"]] 1 2
    by (simp add: planText_def sample_files)
qed

text \<open>
  The claim as stated, with the literal substring \<^verbatim>\<open>STATUS: DONE\<close>, fails in both
  directions: \<^verbatim>\<open>STATUS:DONE\<close> does not hold the literal and ends the loop, and
  \<^verbatim>\<open>STATUS: DONE_1\<close> holds the literal and does not end it.
\<close>

theorem literal_marker_counterexample:
  "isBreak (loopBody (sampleExt None (Some ''STATUS:DONE'')) sampleArgs ''build'' 0 emptyWorld)
   \<and> \<not> sublist ''STATUS: DONE'' ''STATUS:DONE''
   \<and> isContinue (loopBody (sampleExt None (Some ''STATUS: DONE_1'')) sampleArgs ''build'' 0 emptyWorld)
   \<and> sublist ''STATUS: DONE'' ''STATUS: DONE_1''"
proof -
  have c: "\<not> (0 < maxIterations sampleArgs \<and> maxIterations sampleArgs \<le> 0)" by simp
  have 1: "doneMarkerTest ''STATUS:DONE''" by code_simp
  have 2: "\<not> doneMarkerTest ''STATUS: DONE_1''" by code_simp
  have 3: "\<not> sublist ''STATUS: DONE'' ''STATUS:DONE''" by code_simp
  have 4: "sublist ''STATUS: DONE'' ''STATUS: DONE_1''" by code_simp
  show ?thesis
    unfolding loopBody_after_turn[OF c sample_buildTurn]
    using 1 2 3 4 by (simp add: planText_def isBreak_def isContinue_def sample_files)
qed

subsection \<open>The iteration cap\<close>

lemma sample_ready_not_done: "\<not> doneMarkerTest (''- [ ] add the route'' @ [CHR 0x0A] @ ''STATUS: READY'')"
  by code_simp

lemma numberToString_2: "numberToString 2 = ''2''"
  by code_simp

text \<open>
  Claim C3. When \<open>maxIterations\<close> is greater than 0, every turn succeeds and no turn leaves
  the completion marker in the plan file, the loop entered with the counter at 0 runs
  exactly \<open>maxIterations\<close> build turns, each with the build prompt, writes the build output
  once per turn, and leaves through the \<^verbatim>\<open>break\<close> of the iteration cap: the run ends
  normally and the last chunk on standard output is the reached-max-iterations message.
\<close>

theorem max_iterations_reached:
  assumes "0 < maxIterations args"
    and "\<And>k start opts fs. \<exists>turn fs'. codex ext k start opts fs = Inr (turn, fs') \<and> \<not> planMarkedDone args fs'"
  shows "\<exists>w' turns. buildLoop ext args p 0 w = Some (Inr w')
           \<and> turnLog w' = turnLog w @ turns
           \<and> length turns = nat (maxIterations args)
           \<and> map promptText turns = replicate (nat (maxIterations args)) p
           \<and> length [e \<leftarrow> writeLog w'. fst e = buildOut args]
                = length [e \<leftarrow> writeLog w. fst e = buildOut args] + nat (maxIterations args)
           \<and> last (stdout w') = ''Reached max iterations: '' @ numberToString (maxIterations args) @ [CHR 0x0A]"
proof -
  have "0 \<le> maxIterations args" using assms(1) by simp
  from loop_runs_to_cap[OF assms this, of "nat (maxIterations args)" p w]
  obtain w' turns where
    "buildLoop ext args p 0 w = Some (Inr w')" "turnLog w' = turnLog w @ turns"
    "map promptText turns = replicate (nat (maxIterations args)) p"
    "length [e \<leftarrow> writeLog w'. fst e = buildOut args]
                = length [e \<leftarrow> writeLog w. fst e = buildOut args] + nat (maxIterations args)"
    "last (stdout w') = ''Reached max iterations: '' @ numberToString (maxIterations args) @ [CHR 0x0A]"
    by auto
  moreover from this(3) have "length turns = nat (maxIterations args)"
    by (metis length_map length_replicate)
  ultimately show ?thesis by blast
qed

text \<open>With \<open>maxIterations = 2\<close> and a plan that stays at \<^verbatim>\<open>STATUS: READY\<close>: two build turns.\<close>

theorem max_iterations_reached_witness:
  "\<exists>w' turns. buildLoop (sampleExt (Some ''t-1'') (Some (''- [ ] add the route'' @ [CHR 0x0A] @ ''STATUS: READY'')))
        sampleArgs ''build'' 0 emptyWorld = Some (Inr w')
     \<and> turnLog w' = turns \<and> length turns = 2
     \<and> map promptText turns = [''build'', ''build'']
     \<and> length [e \<leftarrow> writeLog w'. fst e = buildOut sampleArgs] = 2
     \<and> last (stdout w') = ''Reached max iterations: 2'' @ [CHR 0x0A]"
proof -
  let ?ext = "sampleExt (Some ''t-1'') (Some (''- [ ] add the route'' @ [CHR 0x0A] @ ''STATUS: READY''))"
  have 1: "0 < maxIterations sampleArgs" by (simp add: sampleArgs_def)
  have 2: "\<exists>turn fs'. codex ?ext k start opts fs = Inr (turn, fs') \<and> \<not> planMarkedDone sampleArgs fs'"
    for k start opts fs
    using sample_ready_not_done by (simp add: sampleExt_def planMarkedDone_def readTextIfExists_def)
  have m: "maxIterations sampleArgs = 2" by (simp add: sampleArgs_def)
  show ?thesis
    using max_iterations_reached[of sampleArgs ?ext "''build''" emptyWorld, OF 1 2]
    by (simp add: m numberToString_2 emptyWorld_def numeral_2_eq_2)
qed

subsection \<open>A plan that is done before the first build turn\<close>

lemma sample_done: "doneMarkerTest (''- [x] nothing to do'' @ [CHR 0x0A] @ ''STATUS: DONE'')"
  by code_simp

text \<open>
  Claim C4. When the plan file already shows the completion marker as the loop is entered,
  and the first build turn succeeds and leaves the plan file as it is, the loop still runs
  that one build turn: exactly one turn is added to the turns run, exactly one write of the
  build output is added to the writes, and the loop then leaves through the completion
  check. The check stands after the turn in the loop body, so no pass ends before a turn.
\<close>

theorem done_before_first_build:
  assumes "planMarkedDone args (files w)"
    and "codex ext (length (turnLog w)) (threadFor (buildOptions args p w)) (buildOptions args p w) (files w)
           = Inr (turn, fs)"
    and "fs (planPath args) = files w (planPath args)"
  shows "\<exists>w'. buildLoop ext args p 0 w = Some (Inr w')
           \<and> turnLog w' = turnLog w @ [buildOptions args p w]
           \<and> [e \<leftarrow> writeLog w'. fst e = buildOut args]
                = [e \<leftarrow> writeLog w. fst e = buildOut args] @ [(buildOut args, stringify ext turn)]
           \<and> last (stdout w') = ''Plan marked DONE. Exiting.'' @ [CHR 0x0A]"
  using assms by (rule first_turn_done)

text \<open>A plan that says \<^verbatim>\<open>STATUS: DONE\<close> from the start: one build turn, one build output.\<close>

theorem done_before_first_build_witness:
  "\<exists>w'. buildLoop (sampleExt None None) sampleArgs ''build'' 0
           (emptyWorld\<lparr>files := [planPath sampleArgs \<mapsto> ''- [x] nothing to do'' @ [CHR 0x0A] @ ''STATUS: DONE'']\<rparr>)
         = Some (Inr w')
     \<and> length (turnLog w') = 1
     \<and> [e \<leftarrow> writeLog w'. fst e = buildOut sampleArgs] = [(buildOut sampleArgs, ''ok'')]
     \<and> last (stdout w') = ''Plan marked DONE. Exiting.'' @ [CHR 0x0A]"
proof -
  let ?w = "emptyWorld\<lparr>files := [planPath sampleArgs \<mapsto> ''- [x] nothing to do'' @ [CHR 0x0A] @ ''STATUS: DONE'']\<rparr>"
  let ?ext = "sampleExt None None"
  have 1: "planMarkedDone sampleArgs (files ?w)"
    using sample_done by (simp add: planMarkedDone_def readTextIfExists_def emptyWorld_def)
  have 2: "codex ?ext (length (turnLog ?w)) (threadFor (buildOptions sampleArgs ''build'' ?w))
             (buildOptions sampleArgs ''build'' ?w) (files ?w) = Inr (sampleTurn None, files ?w)"
    by (simp add: sampleExt_def)
  from done_before_first_build[of sampleArgs ?w ?ext "''build''" "sampleTurn None" "files ?w", OF 1 2]
  obtain w' where "buildLoop ?ext sampleArgs ''build'' 0 ?w = Some (Inr w')"
    "turnLog w' = turnLog ?w @ [buildOptions sampleArgs ''build'' ?w]"
    "[e \<leftarrow> writeLog w'. fst e = buildOut sampleArgs]
       = [e \<leftarrow> writeLog ?w. fst e = buildOut sampleArgs] @ [(buildOut sampleArgs, stringify ?ext (sampleTurn None))]"
    "last (stdout w') = ''Plan marked DONE. Exiting.'' @ [CHR 0x0A]"
    by auto
  then have "buildLoop ?ext sampleArgs ''build'' 0 ?w = Some (Inr w')
     \<and> length (turnLog w') = 1
     \<and> [e \<leftarrow> writeLog w'. fst e = buildOut sampleArgs] = [(buildOut sampleArgs, ''ok'')]
     \<and> last (stdout w') = ''Plan marked DONE. Exiting.'' @ [CHR 0x0A]"
    by (simp add: emptyWorld_def sampleExt_def sampleTurn_def)
  then show ?thesis by blast
qed

subsection \<open>A cap of zero or less\<close>

lemma trim_goal: "trim ''add a health endpoint'' \<noteq> []"
  by code_simp

lemma resolve_state: "path_resolve ''/srv'' [''/tmp/state''] = ''/tmp/state''"
  by code_simp

text \<open>
  Claim C10. The argument parser takes the number after \<^verbatim>\<open>--max-iterations\<close> as it is,
  negative or not. For every \<open>maxIterations\<close> of 0 or less the iteration cap never triggers:
  a pass of the loop body ends in a \<^verbatim>\<open>break\<close> only through the completion check after a
  build turn, a loop that ends normally has ended through that check, and when every
  turn succeeds and no turn leaves the completion marker in the plan file the loop never
  ends.
\<close>

theorem nonpositive_cap_unbounded:
  "(toNumber ext v = Some n \<and> v \<noteq> [] \<and> trim g \<noteq> [] \<and> d \<noteq> [] \<longrightarrow>
      parseArgs ext [''--goal'', g, ''--max-iterations'', v, ''--state-dir'', d]
        = Inr \<lparr>goal = g, maxIterations = n, workdir = cwd ext, stateDir = path_resolve (cwd ext) [d]\<rparr>)
   \<and> (maxIterations args \<le> 0 \<longrightarrow>
        (\<forall>iter w w'. loopBody ext args p iter w = Inr (Break w') \<longrightarrow>
            (\<exists>w1. buildTurn ext args p w = Inr w1 \<and> planMarkedDone args (files w1)
                  \<and> w' = stdoutWrite (''Plan marked DONE. Exiting.'' @ [CHR 0x0A]) w1))
      \<and> (\<forall>iter w w'. buildLoop ext args p iter w = Some (Inr w') \<longrightarrow>
            (\<exists>w1. planMarkedDone args (files w1)
                  \<and> w' = stdoutWrite (''Plan marked DONE. Exiting.'' @ [CHR 0x0A]) w1))
      \<and> ((\<forall>k start opts fs. \<exists>turn fs'. codex ext k start opts fs = Inr (turn, fs') \<and> \<not> planMarkedDone args fs')
            \<longrightarrow> (\<forall>iter w. buildLoop ext args p iter w = None)))"
proof (intro conjI impI allI)
  assume "toNumber ext v = Some n \<and> v \<noteq> [] \<and> trim g \<noteq> [] \<and> d \<noteq> []"
  then show "parseArgs ext [''--goal'', g, ''--max-iterations'', v, ''--state-dir'', d]
        = Inr \<lparr>goal = g, maxIterations = n, workdir = cwd ext, stateDir = path_resolve (cwd ext) [d]\<rparr>"
    using parseArgs_max_iterations by blast
next
  fix iter w w'
  assume "maxIterations args \<le> 0" "loopBody ext args p iter w = Inr (Break w')"
  then show "\<exists>w1. buildTurn ext args p w = Inr w1 \<and> planMarkedDone args (files w1)
                  \<and> w' = stdoutWrite (''Plan marked DONE. Exiting.'' @ [CHR 0x0A]) w1"
    by (rule uncapped_break)
next
  fix iter w w'
  assume "maxIterations args \<le> 0" "buildLoop ext args p iter w = Some (Inr w')"
  then show "\<exists>w1. planMarkedDone args (files w1)
                  \<and> w' = stdoutWrite (''Plan marked DONE. Exiting.'' @ [CHR 0x0A]) w1"
    using uncapped_ends_done by blast
next
  fix iter w
  assume "maxIterations args \<le> 0"
    "\<forall>k start opts fs. \<exists>turn fs'. codex ext k start opts fs = Inr (turn, fs') \<and> \<not> planMarkedDone args fs'"
  then show "buildLoop ext args p iter w = None"
    using uncapped_diverges[of args ext p iter w] by blast
qed

text \<open>
  \<^verbatim>\<open>--max-iterations -3\<close> is parsed to \<open>- 3\<close>; with that cap a plan that stays at
  \<^verbatim>\<open>STATUS: READY\<close> keeps the loop running for ever, and a plan that says
  \<^verbatim>\<open>STATUS: DONE\<close> ends it through the completion check.
\<close>

theorem nonpositive_cap_unbounded_witness:
  "parseArgs (sampleExt None (Some ''STATUS: READY''))
       [''--goal'', ''add a health endpoint'', ''--max-iterations'', ''-3'', ''--state-dir'', ''/tmp/state'']
     = Inr (sampleArgs\<lparr>maxIterations := - 3, workdir := ''/srv''\<rparr>)
   \<and> buildLoop (sampleExt None (Some ''STATUS: READY'')) (sampleArgs\<lparr>maxIterations := - 3, workdir := ''/srv''\<rparr>)
        ''build'' 0 emptyWorld = None
   \<and> (\<exists>w1. buildLoop (sampleExt None None) (sampleArgs\<lparr>maxIterations := - 3\<rparr>) ''build'' 0
           (emptyWorld\<lparr>files := [planPath sampleArgs \<mapsto> ''- [x] nothing to do'' @ [CHR 0x0A] @ ''STATUS: DONE'']\<rparr>)
         = Some (Inr (stdoutWrite (''Plan marked DONE. Exiting.'' @ [CHR 0x0A]) w1)))"
proof -
  let ?ext = "sampleExt None (Some ''STATUS: READY'')"
  let ?args = "sampleArgs\<lparr>maxIterations := - 3, workdir := ''/srv''\<rparr>"
  note T = nonpositive_cap_unbounded[of ?ext "''-3''" "- 3" "''add a health endpoint''" "''/tmp/state''" ?args "''build''"]
  have pp: "planPath ?args = planPath sampleArgs" by (simp add: planPath_def sampleArgs_def)
  have nd: "\<not> doneMarkerTest ''STATUS: READY''" by code_simp
  have 1: "toNumber ?ext ''-3'' = Some (- 3) \<and> ''-3'' \<noteq> [] \<and> trim ''add a health endpoint'' \<noteq> [] \<and> ''/tmp/state'' \<noteq> []"
    using trim_goal by (simp add: sampleExt_def)
  have 2: "maxIterations ?args \<le> 0" by simp
  have 3: "\<forall>k start opts fs. \<exists>turn fs'. codex ?ext k start opts fs = Inr (turn, fs') \<and> \<not> planMarkedDone ?args fs'"
    using nd by (simp add: sampleExt_def planMarkedDone_def readTextIfExists_def pp)
  have a: "parseArgs ?ext [''--goal'', ''add a health endpoint'', ''--max-iterations'', ''-3'', ''--state-dir'', ''/tmp/state'']
     = Inr ?args"
    using T 1 by (simp add: sampleExt_def sampleArgs_def resolve_state)
  have b: "buildLoop ?ext ?args ''build'' 0 emptyWorld = None"
    using T 2 3 by blast
  let ?ext2 = "sampleExt None None"
  let ?args2 = "sampleArgs\<lparr>maxIterations := - 3\<rparr>"
  let ?w = "emptyWorld\<lparr>files := [planPath sampleArgs \<mapsto> ''- [x] nothing to do'' @ [CHR 0x0A] @ ''STATUS: DONE'']\<rparr>"
  have pp2: "planPath ?args2 = planPath sampleArgs" by (simp add: planPath_def sampleArgs_def)
  have "planMarkedDone ?args2 (files ?w)"
    using sample_done by (simp add: planMarkedDone_def readTextIfExists_def emptyWorld_def pp2)
  moreover have "codex ?ext2 (length (turnLog ?w)) (threadFor (buildOptions ?args2 ''build'' ?w))
             (buildOptions ?args2 ''build'' ?w) (files ?w) = Inr (sampleTurn None, files ?w)"
    by (simp add: sampleExt_def)
  ultimately obtain w' where run: "buildLoop ?ext2 ?args2 ''build'' 0 ?w = Some (Inr w')"
    using first_turn_done[of ?args2 ?w ?ext2 "''build''" "sampleTurn None" "files ?w"] by auto
  have "maxIterations ?args2 \<le> 0" by simp
  with nonpositive_cap_unbounded[of ?ext2 "''-3''" "- 3" "''add a health endpoint''" "''/tmp/state''" ?args2 "''build''"] run
  obtain w1 where "w' = stdoutWrite (''Plan marked DONE. Exiting.'' @ [CHR 0x0A]) w1" by blast
  with run have c: "\<exists>w1. buildLoop ?ext2 ?args2 ''build'' 0 ?w
         = Some (Inr (stdoutWrite (''Plan marked DONE. Exiting.'' @ [CHR 0x0A]) w1))" by blast
  show ?thesis using a b c by blast
qed

subsection \<open>The persisted conversation handle\<close>



subsection \<open>The file tree\<close>

text \<open>
  Making directories keeps every entry there is, and a path made exists afterwards.
\<close>

lemma makeDirs_keeps:
  "kindAt t x = Some k \<Longrightarrow> kindAt (treeOf (makeDirs t d ns)) x = Some k"
proof (induction t d ns rule: makeDirs.induct)
  case (1 t d)
  then show ?case by simp
next
  case (2 t d n ns)
  let ?t1 = "t\<lparr>entries := (entries t)(d @ [n] \<mapsto> Directory)\<rparr>"
  have k1: "kindAt t (d @ [n]) = None \<Longrightarrow> kindAt ?t1 x = Some k"
    using 2(5) by (auto simp: kindAt_def split: if_splits)
  show ?case
  proof (cases "kindAt t d \<noteq> Some Directory")
    case True
    then show ?thesis using 2(5) by simp
  next
    case dd: False
    show ?thesis
    proof (cases "n = [] \<or> n = ''.''")
      case True
      then show ?thesis using 2(1)[OF dd True 2(5)] dd by auto
    next
      case n1: False
      show ?thesis
      proof (cases "n = ''..''")
        case True
        then show ?thesis using 2(2)[OF dd n1 True 2(5)] dd n1 by auto
      next
        case n2: False
        show ?thesis
        proof (cases "kindAt t (d @ [n]) \<noteq> None")
          case True
          then show ?thesis using 2(3)[OF dd n1 n2 True 2(5)] dd n1 n2 by auto
        next
          case ne: False
          show ?thesis
          proof (cases "refused t (d @ [n])")
            case True
            then show ?thesis using 2(5) dd n1 n2 ne by auto
          next
            case False
            have "kindAt ?t1 x = Some k" using k1 ne by simp
            from 2(4)[OF dd n1 n2 ne False this] show ?thesis using dd n1 n2 ne False by auto
          qed
        qed
      qed
    qed
  qed
qed

lemma makeDirs_keeps_Done:
  "makeDirs t d ns = Done t' \<Longrightarrow> kindAt t x = Some k \<Longrightarrow> kindAt t' x = Some k"
  using makeDirs_keeps[of t x k d ns] by simp

lemma makeDirs_walk:
  "makeDirs t d ns = Done t' \<Longrightarrow> \<exists>e. walk t' d ns = Some e \<and> kindAt t' e = Some Directory"
proof (induction t d ns rule: makeDirs.induct)
  case (1 t d)
  then show ?case by (simp split: if_splits)
next
  case (2 t d n ns)
  have dd: "kindAt t d = Some Directory" using 2(5) by (auto split: if_splits)
  then have dd': "kindAt t' d = Some Directory" using makeDirs_keeps_Done[OF 2(5)] by simp
  show ?case
  proof (cases "n = [] \<or> n = ''.''")
    case True
    then show ?thesis using 2 dd dd' by auto
  next
    case n1: False
    show ?thesis
    proof (cases "n = ''..''")
      case True
      then show ?thesis using 2 dd dd' n1 by auto
    next
      case n2: False
      show ?thesis
      proof (cases "kindAt t (d @ [n]) \<noteq> None")
        case True
        then obtain k where k: "kindAt t (d @ [n]) = Some k" by auto
        have m: "makeDirs t (d @ [n]) ns = Done t'" using 2(5) dd n1 n2 True by simp
        have "kindAt t' (d @ [n]) = Some k" using makeDirs_keeps_Done[OF 2(5) k] .
        then show ?thesis using 2(3)[OF _ n1 n2 _ m] dd dd' n1 n2 True by auto
      next
        case False
        then have nr: "\<not> refused t (d @ [n])" using 2(5) dd n1 n2 by (auto split: if_splits)
        let ?t1 = "t\<lparr>entries := (entries t)(d @ [n] \<mapsto> Directory)\<rparr>"
        have m: "makeDirs ?t1 (d @ [n]) ns = Done t'" using 2(5) dd n1 n2 False nr by simp
        have "kindAt ?t1 (d @ [n]) = Some Directory" by (simp add: kindAt_def)
        then have "kindAt t' (d @ [n]) = Some Directory" using makeDirs_keeps_Done[OF m] by blast
        then show ?thesis using 2(4)[OF _ n1 n2 _ nr m] dd dd' n1 n2 False by auto
      qed
    qed
  qed
qed

lemma mkdirSync_exists:
  "mkdirSync wdir p t = Done t' \<Longrightarrow> existsSync wdir p t'"
  using makeDirs_walk[of t "startDir wdir p" "pathNames p" t']
  by (auto simp: mkdirSync_def existsSync_def split: if_splits)

text \<open>
  On the sample file system: a directory exists with and without a slash at its end, a
  file only without; nothing is made under a file, in place of a file or where the
  system refuses; and the directories made on the way to a path exist afterwards.
\<close>

lemma sample_tree:
  "existsSync ''/home/u'' ''/tmp/proj/'' sampleTree"
  "existsSync ''/tmp'' ''proj/../notes'' sampleTree"
  "\<not> existsSync ''/home/u'' ''/tmp/notes/'' sampleTree"
  "\<not> existsSync ''/home/u'' ''/tmp/notes/..'' sampleTree"
  "\<not> existsSync ''/home/u'' [] sampleTree"
  "case mkdirSync ''/home/u'' ''/tmp/notes/sub'' sampleTree of Thrown t \<Rightarrow> True | Done t \<Rightarrow> False"
  "case mkdirSync ''/home/u'' ''/tmp/notes'' sampleTree of Thrown t \<Rightarrow> True | Done t \<Rightarrow> False"
  "case mkdirSync ''/home/u'' ''/tmp/locked/proj'' sampleTree of Thrown t \<Rightarrow> True | Done t \<Rightarrow> False"
  "case mkdirSync ''/home/u'' ''/tmp/proj/'' sampleTree of Thrown t \<Rightarrow> False | Done t \<Rightarrow> True"
  "case mkdirSync ''/home/u'' ''/var/a/b'' sampleTree of
     Thrown t \<Rightarrow> False
   | Done t \<Rightarrow> existsSync ''/home/u'' ''/var/a/b/'' t \<and> existsSync ''/var'' ''a'' t \<and> \<not> existsSync ''/var'' ''b'' t"
  by code_simp+

section \<open>Properties of the supervisor and the broadcaster\<close>

lemma fold_resWrite:
  "fold (\<lambda>c. resWrite (client_res c) x) cs s =
     s\<lparr>responses := (\<lambda>r. responses s r @ replicate (length [c \<leftarrow> cs. client_res c = r]) x)\<rparr>"
proof (induction cs arbitrary: s)
  case Nil
  then show ?case by simp
next
  case (Cons c cs)
  show ?case
    by (simp add: Cons.IH) (auto simp: resWrite_def fun_eq_iff)
qed

lemma broadcast_eq:
  "broadcast l s =
     s\<lparr>logBuffer := logBuffer s @ [l], published := published s @ [l],
       responses := (\<lambda>r. responses s r @ replicate (length [c \<leftarrow> clients s. client_res c = r]) (payload l))\<rparr>"
  by (simp add: broadcast_def fold_resWrite)

lemma fold_replay:
  "fold (\<lambda>line. resWrite r (f line)) ls s = s\<lparr>responses := (responses s)(r := responses s r @ map f ls)\<rparr>"
  by (induction ls arbitrary: s) (simp_all add: resWrite_def)

lemma subscribe_eq:
  "subscribe i r s =
     s\<lparr>clients := clients s @ [\<lparr>client_id = i, client_res = r\<rparr>],
       responses := (responses s)(r := responses s r @ map payload (logBuffer s))\<rparr>"
  by (simp add: subscribe_def fold_replay)

lemma alphabet_distinct: "distinct base64urlAlphabet" "length base64urlAlphabet = 64"
  by (simp_all add: base64urlAlphabet_def)

lemma sextet_inj: "m < 64 \<Longrightarrow> n < 64 \<Longrightarrow> sextet m = sextet n \<longleftrightarrow> m = n"
  unfolding sextet_def using alphabet_distinct by (simp add: nth_eq_iff_index_eq)

lemma sextet_plain: "n < 64 \<Longrightarrow> sextet n \<noteq> CHR ''/'' \<and> sextet n \<noteq> CHR ''.''"
proof -
  assume "n < 64"
  then have "sextet n \<in> set base64urlAlphabet"
    unfolding sextet_def using alphabet_distinct(2) by simp
  then show ?thesis by (auto simp: base64urlAlphabet_def)
qed

lemma split_digits:
  fixes a b a' b' k :: nat
  assumes "b < k" "b' < k" "a * k + b = a' * k + b'"
  shows "a = a' \<and> b = b'"
proof -
  have "(a * k + b) div k = a" "(a' * k + b') div k = a'" using assms(1,2) by simp_all
  then have "a = a'" using assms(3) by simp
  then show ?thesis using assms(3) by simp
qed

lemma group3:
  fixes x y z x' y' z' :: nat
  assumes "y < 256" "z < 256" "y' < 256" "z' < 256"
    and 1: "x div 4 = x' div 4" and 2: "x mod 4 * 16 + y div 16 = x' mod 4 * 16 + y' div 16"
    and 3: "y mod 16 * 4 + z div 64 = y' mod 16 * 4 + z' div 64" and 4: "z mod 64 = z' mod 64"
  shows "x = x' \<and> y = y' \<and> z = z'"
proof -
  have "y div 16 < 16" "y' div 16 < 16" "z div 64 < 4" "z' div 64 < 4"
    using assms(1-4) by simp_all
  from split_digits[OF this(1,2) 2] split_digits[OF this(3,4) 3]
  have e: "x mod 4 = x' mod 4" "y div 16 = y' div 16" "y mod 16 = y' mod 16" "z div 64 = z' div 64"
    by simp_all
  have "x = x'" using 1 e(1) by (metis div_mult_mod_eq)
  moreover have "y = y'" using e(2,3) by (metis div_mult_mod_eq)
  moreover have "z = z'" using e(4) 4 by (metis div_mult_mod_eq)
  ultimately show ?thesis by simp
qed

lemma sext_bounds:
  fixes x y z :: nat
  assumes "x < 256" "y < 256" "z < 256"
  shows "x div 4 < 64" "x mod 4 * 16 + y div 16 < 64" "y mod 16 * 4 + z div 64 < 64" "z mod 64 < 64"
    "x mod 4 * 16 < 64" "y mod 16 * 4 < 64"
proof -
  have "x mod 4 < 4" "y div 16 < 16" "y mod 16 < 16" "z div 64 < 4" using assms by simp_all
  then show "x mod 4 * 16 + y div 16 < 64" "y mod 16 * 4 + z div 64 < 64" "x mod 4 * 16 < 64" "y mod 16 * 4 < 64"
    by linarith+
  show "x div 4 < 64" "z mod 64 < 64" using assms by simp_all
qed


lemma quad_eq:
  assumes "[sextet p, sextet q, sextet r, sextet s] = [sextet p', sextet q', sextet r', sextet s']"
    "p < 64" "q < 64" "r < 64" "s < 64" "p' < 64" "q' < 64" "r' < 64" "s' < 64"
  shows "p = p' \<and> q = q' \<and> r = r' \<and> s = s'"
  using assms by (simp add: sextet_inj)

lemma base64url_inj: "base64url xs = base64url ys \<Longrightarrow> xs = ys"
proof (induction xs arbitrary: ys rule: base64url.induct)
  case (1 a b c bytes)
  show ?case
  proof (cases ys rule: base64url.cases)
    case (1 a' b' c' bytes')
    note b = sext_bounds[OF nat_of_char_less_256 nat_of_char_less_256 nat_of_char_less_256]
    from "1.prems" 1 have
      q: "[sextet (of_char a div 4), sextet (of_char a mod 4 * 16 + of_char b div 16),
           sextet (of_char b mod 16 * 4 + of_char c div 64), sextet (of_char c mod 64)]
        = [sextet (of_char a' div 4), sextet (of_char a' mod 4 * 16 + of_char b' div 16),
           sextet (of_char b' mod 16 * 4 + of_char c' div 64), sextet (of_char c' mod 64)]"
      and r: "base64url bytes = base64url bytes'"
      by (simp_all add: Let_def)
    from quad_eq[OF q b(1-4) b(1-4)]
    have "(of_char a :: nat) = of_char a' \<and> (of_char b :: nat) = of_char b' \<and> (of_char c :: nat) = of_char c'"
      by (intro group3) (simp_all)
    then show ?thesis using "1.IH"[OF _ _ _ r] 1 by simp
  next
    case (2 a' b')
    then show ?thesis using "1.prems" by (simp add: Let_def)
  next
    case (3 a')
    then show ?thesis using "1.prems" by (simp add: Let_def)
  next
    case 4
    then show ?thesis using "1.prems" by (simp add: Let_def)
  qed
next
  case (2 a b)
  show ?case
  proof (cases ys rule: base64url.cases)
    case (1 a' b' c' bytes')
    then show ?thesis using "2.prems" by (simp add: Let_def)
  next
    case (2 a' b')
    note b = sext_bounds[OF nat_of_char_less_256 nat_of_char_less_256 nat_of_char_less_256]
    from "2.prems" 2 have
      "sextet (of_char a div 4) = sextet (of_char a' div 4)"
      "sextet (of_char a mod 4 * 16 + of_char b div 16) = sextet (of_char a' mod 4 * 16 + of_char b' div 16)"
      "sextet (of_char b mod 16 * 4) = sextet (of_char b' mod 16 * 4)"
      by (simp_all add: Let_def)
    then have "(of_char a :: nat) div 4 = of_char a' div 4"
      "(of_char a :: nat) mod 4 * 16 + of_char b div 16 = of_char a' mod 4 * 16 + of_char b' div 16"
      "(of_char b :: nat) mod 16 * 4 + (0::nat) div 64 = of_char b' mod 16 * 4 + (0::nat) div 64"
      using b by (simp_all add: sextet_inj)
    then have "(of_char a :: nat) = of_char a' \<and> (of_char b :: nat) = of_char b' \<and> (0::nat) = 0"
      by (intro group3) simp_all
    then show ?thesis using 2 by simp
  next
    case (3 a')
    then show ?thesis using "2.prems" by (simp add: Let_def)
  next
    case 4
    then show ?thesis using "2.prems" by (simp add: Let_def)
  qed
next
  case (3 a)
  show ?case
  proof (cases ys rule: base64url.cases)
    case (1 a' b' c' bytes')
    then show ?thesis using "3.prems" by (simp add: Let_def)
  next
    case (2 a' b')
    then show ?thesis using "3.prems" by (simp add: Let_def)
  next
    case (3 a')
    note b = sext_bounds[OF nat_of_char_less_256 nat_of_char_less_256 nat_of_char_less_256]
    from "3.prems" 3 have
      "sextet (of_char a div 4) = sextet (of_char a' div 4)"
      "sextet (of_char a mod 4 * 16) = sextet (of_char a' mod 4 * 16)"
      by (simp_all add: Let_def)
    then have "(of_char a :: nat) div 4 = of_char a' div 4"
      "(of_char a :: nat) mod 4 * 16 + (0::nat) div 16 = of_char a' mod 4 * 16 + (0::nat) div 16"
      using b by (simp_all add: sextet_inj)
    then have "(of_char a :: nat) = of_char a' \<and> (0::nat) = 0 \<and> (0::nat) = 0"
      by (intro group3) simp_all
    then show ?thesis using 3 by simp
  next
    case 4
    then show ?thesis using "3.prems" by (simp add: Let_def)
  qed
next
  case 4
  then show ?case by (cases ys rule: base64url.cases) (simp_all add: Let_def)
qed

lemma sextet_in: "n < 64 \<Longrightarrow> sextet n \<in> set base64urlAlphabet"
  unfolding sextet_def using alphabet_distinct(2) by simp

lemma base64url_chars: "set (base64url w) \<subseteq> set base64urlAlphabet"
proof (induction w rule: base64url.induct)
  case (1 a b c bytes)
  note b = sext_bounds[of "of_char a" "of_char b" "of_char c", OF nat_of_char_less_256 nat_of_char_less_256 nat_of_char_less_256]
  show ?case using 1 b(1-4)[THEN sextet_in] by (simp add: Let_def)
next
  case (2 a b)
  note b = sext_bounds[of "of_char a" "of_char b" "of_char b", OF nat_of_char_less_256 nat_of_char_less_256 nat_of_char_less_256]
  show ?case using b(1,2,6)[THEN sextet_in] by (simp add: Let_def)
next
  case (3 a)
  note b = sext_bounds[of "of_char a" "of_char a" "of_char a", OF nat_of_char_less_256 nat_of_char_less_256 nat_of_char_less_256]
  show ?case using b(1,5)[THEN sextet_in] by (simp add: Let_def)
next
  case 4
  show ?case by simp
qed

lemma base64url_plain: "w \<noteq> [] \<Longrightarrow> plainName (base64url w)"
proof -
  assume "w \<noteq> []"
  then have ne: "base64url w \<noteq> []" by (cases w rule: base64url.cases) (simp_all add: Let_def)
  have "CHR ''/'' \<notin> set base64urlAlphabet" "CHR ''.'' \<notin> set base64urlAlphabet"
    by (simp_all add: base64urlAlphabet_def)
  then have "CHR ''/'' \<notin> set (base64url w)" "CHR ''.'' \<notin> set (base64url w)"
    using base64url_chars[of w] by blast+
  then show ?thesis using ne by (auto simp: plainName_def)
qed

lemma normalizeSegments_nonempty:
  "[] \<notin> set res \<Longrightarrow> [] \<notin> set (normalizeSegments allow res segs)"
proof (induction segs arbitrary: res)
  case Nil
  then show ?case by simp
next
  case (Cons seg segs)
  have b: "[] \<notin> set (butlast res)" using Cons.prems by (meson in_set_butlastD)
  show ?case using Cons.IH[of res] Cons.IH[of "res @ [''..'']"] Cons.IH[of "butlast res"] Cons.IH[of "res @ [seg]"]
      Cons.prems b
    by auto
qed

lemma joinWith_nonempty: "ps \<noteq> [] \<Longrightarrow> [] \<notin> set ps \<Longrightarrow> joinWith sep ps \<noteq> []"
  by (cases ps) (auto simp: joinWith_def)

lemma path_join_empty_neq:
  assumes n: "plainName n" and dot: "CHR ''.'' \<notin> set n"
  shows "path_join [d, []] \<noteq> path_join [d, n]"
proof (cases "d = []")
  case True
  have "n \<noteq> ''.''" using dot by auto
  then show ?thesis using True path_join_plain[OF n, of d] by (simp add: path_join_def dirPrefix_def)
next
  case False
  define S where "S = normalizeSegments (hd d \<noteq> CHR ''/'') [] (splitOn CHR ''/'' d)"
  have ne: "[] \<notin> set S" unfolding S_def by (rule normalizeSegments_nonempty) simp
  have nn: "n \<noteq> []" using n by (simp add: plainName_def)
  have l: "path_join [d, []] = normalize d" using False by (simp add: path_join_def joinWith_def)
  have r: "path_join [d, n] = (if hd d = CHR ''/'' then ''/'' else []) @ (if S = [] then [] else joinWith ''/'' S @ ''/'') @ n"
    using path_join_plain[OF n, of d] False by (simp add: dirPrefix_def S_def Let_def)
  show ?thesis
  proof (cases "S = []")
    case True
    then have "normalize d = (if hd d = CHR ''/'' then ''/'' else if last d = CHR ''/'' then ''./'' else ''.'')"
      using False by (simp add: normalize_def normalizeString_def S_def[symmetric] joinWith_def Let_def)
    then show ?thesis unfolding l r using True nn dot by (auto split: if_splits)
  next
    case F: False
    then have q: "joinWith ''/'' S \<noteq> []" using ne by (rule joinWith_nonempty)
    then have "normalize d = (if hd d = CHR ''/'' then ''/'' else []) @ joinWith ''/'' S @ (if last d = CHR ''/'' then ''/'' else [])"
      using False by (simp add: normalize_def normalizeString_def S_def[symmetric] Let_def)
    then show ?thesis unfolding l r using F nn by (auto split: if_splits)
  qed
qed

lemma stateDirFor_inj: "stateDirFor cfg w1 = stateDirFor cfg w2 \<longleftrightarrow> w1 = w2"
proof
  assume e: "stateDirFor cfg w1 = stateDirFor cfg w2"
  have nd: "w \<noteq> [] \<Longrightarrow> CHR ''.'' \<notin> set (base64url w)" for w
    using base64url_chars[of w] by (auto simp: base64urlAlphabet_def)
  show "w1 = w2"
  proof (cases "w1 = []")
    case True
    show ?thesis
    proof (cases "w2 = []")
      case True
      with \<open>w1 = []\<close> show ?thesis by simp
    next
      case False
      from path_join_empty_neq[OF base64url_plain[OF False] nd[OF False], of "stateBaseDir cfg"] e True
      show ?thesis by (simp add: stateDirFor_def)
    qed
  next
    case False
    show ?thesis
    proof (cases "w2 = []")
      case True
      from path_join_empty_neq[OF base64url_plain[OF False] nd[OF False], of "stateBaseDir cfg"] e True
      show ?thesis by (simp add: stateDirFor_def)
    next
      case F: False
      have "base64url w1 = base64url w2"
        using e path_join_inject[OF base64url_plain[OF False] base64url_plain[OF F], of "stateBaseDir cfg"]
        by (simp add: stateDirFor_def)
      then show ?thesis by (rule base64url_inj)
    qed
  qed
next
  assume "w1 = w2" then show "stateDirFor cfg w1 = stateDirFor cfg w2" by simp
qed

lemma saveSessions_fields:
  "readSessions (saveSessions u s) = u (readSessions s)"
  "child (saveSessions u s) = child s" "currentSession (saveSessions u s) = currentSession s"
  "clients (saveSessions u s) = clients s" "logBuffer (saveSessions u s) = logBuffer s"
  "responses (saveSessions u s) = responses s" "published (saveSessions u s) = published s"
  "fsys (saveSessions u s) = fsys s"
  by (simp_all add: saveSessions_def readSessions_def)

lemma broadcast_fields:
  "readSessions (broadcast l s) = readSessions s"
  "child (broadcast l s) = child s" "currentSession (broadcast l s) = currentSession s"
  "clients (broadcast l s) = clients s" "logBuffer (broadcast l s) = logBuffer s @ [l]"
  "published (broadcast l s) = published s @ [l]"
  "fsys (broadcast l s) = fsys s" "sessionsFile (broadcast l s) = sessionsFile s"
  "responses (broadcast l s) r = responses s r @ replicate (length [c \<leftarrow> clients s. client_res c = r]) (payload l)"
  by (simp_all add: broadcast_eq readSessions_def)

lemma readSessions_update:
  "readSessions (s\<lparr>fsys := e\<rparr>) = readSessions s"
  "readSessions (s\<lparr>logBuffer := b\<rparr>) = readSessions s"
  "readSessions (s\<lparr>currentSession := cs\<rparr>) = readSessions s"
  "readSessions (s\<lparr>child := ch\<rparr>) = readSessions s"
  "readSessions (s\<lparr>clients := cl\<rparr>) = readSessions s"
  "readSessions (s\<lparr>responses := rs\<rparr>) = readSessions s"
  "readSessions (s\<lparr>published := p\<rparr>) = readSessions s"
  by (simp_all add: readSessions_def)

lemma announced_fields:
  "readSessions (announced cfg g m wd uuid now t s) = readSessions s @ [newSession cfg g m wd uuid now]"
  "child (announced cfg g m wd uuid now t s) = child s"
  "currentSession (announced cfg g m wd uuid now t s) = Some (newSession cfg g m wd uuid now)"
  "clients (announced cfg g m wd uuid now t s) = clients s"
  by (simp_all add: announced_def broadcast_fields saveSessions_fields readSessions_update)

lemma startSession_outcome:
  fixes cfg wi
  defines "wd \<equiv> normalizeWorkdir cfg wi"
  shows "(child s \<noteq> None \<and> startSession cfg g m wi c uuid now os s = (Some AlreadyRunning, s))
   \<or> (child s = None \<and> \<not> existsSync (serverCwd cfg) wd (fsys s) \<and> \<not> c
        \<and> startSession cfg g m wi c uuid now os s = (Some (WorkdirNotFound wd), s))
   \<or> (child s = None
        \<and> (\<exists>p t. startSession cfg g m wi c uuid now os s = (Some (MkdirFailed p), s\<lparr>fsys := t\<rparr>)))
   \<or> (child s = None \<and> saveThrows os
        \<and> (\<exists>t. startSession cfg g m wi c uuid now os s
                 = (Some SaveFailed, s\<lparr>fsys := t, logBuffer := [],
                                       currentSession := Some (newSession cfg g m wd uuid now)\<rparr>)))
   \<or> (child s = None \<and> \<not> saveThrows os \<and> spawnThrows os
        \<and> (\<exists>t. startSession cfg g m wi c uuid now os s
                 = (Some SpawnFailed, announced cfg g m wd uuid now t s)))
   \<or> (child s = None \<and> \<not> saveThrows os \<and> \<not> spawnThrows os
        \<and> (\<exists>t. startSession cfg g m wi c uuid now os s
                 = (None, (announced cfg g m wd uuid now t s)\<lparr>child := Some (commandLine cfg g m wd)\<rparr>)))"
proof (cases "child s = None")
  case False
  then show ?thesis by (simp add: startSession_def)
next
  case ch: True
  show ?thesis
  proof (cases "\<not> existsSync (serverCwd cfg) wd (fsys s) \<and> \<not> c")
    case True
    then show ?thesis using ch by (simp add: startSession_def wd_def)
  next
    case go: False
    define a1 where "a1 = (if \<not> existsSync (serverCwd cfg) wd (fsys s)
                           then mkdirSync (serverCwd cfg) wd (fsys s) else Done (fsys s))"
    show ?thesis
    proof (cases a1)
      case (Thrown t)
      then have "startSession cfg g m wi c uuid now os s = (Some (MkdirFailed wd), s\<lparr>fsys := t\<rparr>)"
        using ch go unfolding a1_def startSession_def wd_def Let_def by (simp split: if_splits)
      then show ?thesis using ch by blast
    next
      case d1: (Done t1)
      show ?thesis
      proof (cases "mkdirSync (serverCwd cfg) (stateDirFor cfg wd) t1")
        case (Thrown t)
        then have "startSession cfg g m wi c uuid now os s
            = (Some (MkdirFailed (stateDirFor cfg wd)), s\<lparr>fsys := t\<rparr>)"
          using ch go d1 unfolding a1_def startSession_def wd_def Let_def by (simp split: if_splits)
        then show ?thesis using ch by blast
      next
        case d2: (Done t2)
        have e: "startSession cfg g m wi c uuid now os s
            = (if saveThrows os
               then (Some SaveFailed, s\<lparr>fsys := t2, logBuffer := [],
                                         currentSession := Some (newSession cfg g m wd uuid now)\<rparr>)
               else if spawnThrows os then (Some SpawnFailed, announced cfg g m wd uuid now t2 s)
               else (None, (announced cfg g m wd uuid now t2 s)\<lparr>child := Some (commandLine cfg g m wd)\<rparr>))"
          using ch go d1 d2 unfolding a1_def startSession_def wd_def Let_def announced_def newSession_def commandLine_def
          by (simp split: if_splits)
        show ?thesis
        proof (cases "saveThrows os")
          case True
          then show ?thesis using e ch by simp blast
        next
          case ns: False
          show ?thesis
          proof (cases "spawnThrows os")
            case True
            then show ?thesis using e ch ns by simp blast
          next
            case False
            then show ?thesis using e ch ns by simp blast
          qed
        qed
      qed
    qed
  qed
qed

text \<open>The six ways a call of \<^verbatim>\<open>startSession\<close> can go.\<close>

lemma startSession_cases:
  obtains
    (busy) "child s \<noteq> None" "startSession cfg g m wi c uuid now os s = (Some AlreadyRunning, s)"
  | (missing) "child s = None" "\<not> existsSync (serverCwd cfg) (normalizeWorkdir cfg wi) (fsys s)" "\<not> c"
      "startSession cfg g m wi c uuid now os s = (Some (WorkdirNotFound (normalizeWorkdir cfg wi)), s)"
  | (mkdir) p t where "child s = None"
      "startSession cfg g m wi c uuid now os s = (Some (MkdirFailed p), s\<lparr>fsys := t\<rparr>)"
  | (save) t where "child s = None" "saveThrows os"
      "startSession cfg g m wi c uuid now os s
         = (Some SaveFailed, s\<lparr>fsys := t, logBuffer := [],
                               currentSession := Some (newSession cfg g m (normalizeWorkdir cfg wi) uuid now)\<rparr>)"
  | (spawn) t where "child s = None" "spawnThrows os"
      "startSession cfg g m wi c uuid now os s
         = (Some SpawnFailed, announced cfg g m (normalizeWorkdir cfg wi) uuid now t s)"
  | (started) t where "child s = None" "\<not> saveThrows os" "\<not> spawnThrows os"
      "startSession cfg g m wi c uuid now os s
         = (None, (announced cfg g m (normalizeWorkdir cfg wi) uuid now t s)
                    \<lparr>child := Some (commandLine cfg g m (normalizeWorkdir cfg wi))\<rparr>)"
proof -
  from startSession_outcome[of s cfg g m wi c uuid now os]
  consider "child s \<noteq> None \<and> startSession cfg g m wi c uuid now os s = (Some AlreadyRunning, s)"
    | "child s = None \<and> \<not> existsSync (serverCwd cfg) (normalizeWorkdir cfg wi) (fsys s) \<and> \<not> c
        \<and> startSession cfg g m wi c uuid now os s = (Some (WorkdirNotFound (normalizeWorkdir cfg wi)), s)"
    | "child s = None
        \<and> (\<exists>p t. startSession cfg g m wi c uuid now os s = (Some (MkdirFailed p), s\<lparr>fsys := t\<rparr>))"
    | "child s = None \<and> saveThrows os
        \<and> (\<exists>t. startSession cfg g m wi c uuid now os s
                 = (Some SaveFailed, s\<lparr>fsys := t, logBuffer := [],
                      currentSession := Some (newSession cfg g m (normalizeWorkdir cfg wi) uuid now)\<rparr>))"
    | "child s = None \<and> \<not> saveThrows os \<and> spawnThrows os
        \<and> (\<exists>t. startSession cfg g m wi c uuid now os s
                 = (Some SpawnFailed, announced cfg g m (normalizeWorkdir cfg wi) uuid now t s))"
    | "child s = None \<and> \<not> saveThrows os \<and> \<not> spawnThrows os
        \<and> (\<exists>t. startSession cfg g m wi c uuid now os s
                 = (None, (announced cfg g m (normalizeWorkdir cfg wi) uuid now t s)
                            \<lparr>child := Some (commandLine cfg g m (normalizeWorkdir cfg wi))\<rparr>))"
    by (elim disjE) fast+
  then show thesis
  proof cases
    case 1 then show ?thesis using busy by fast
  next
    case 2 then show ?thesis using missing by fast
  next
    case 3 then obtain p t where "startSession cfg g m wi c uuid now os s = (Some (MkdirFailed p), s\<lparr>fsys := t\<rparr>)"
      by blast
    then show ?thesis using 3 mkdir by fast
  next
    case 4 then obtain t where "startSession cfg g m wi c uuid now os s
                 = (Some SaveFailed, s\<lparr>fsys := t, logBuffer := [],
                      currentSession := Some (newSession cfg g m (normalizeWorkdir cfg wi) uuid now)\<rparr>)"
      by blast
    then show ?thesis using 4 save by fast
  next
    case 5 then obtain t where "startSession cfg g m wi c uuid now os s
                 = (Some SpawnFailed, announced cfg g m (normalizeWorkdir cfg wi) uuid now t s)"
      by blast
    then show ?thesis using 5 spawn by fast
  next
    case 6 then obtain t where "startSession cfg g m wi c uuid now os s
                 = (None, (announced cfg g m (normalizeWorkdir cfg wi) uuid now t s)
                            \<lparr>child := Some (commandLine cfg g m (normalizeWorkdir cfg wi))\<rparr>)"
      by blast
    then show ?thesis using 6 started by fast
  qed
qed

lemma startSession_ok:
  assumes "fst (startSession cfg g m wi c uuid now os s) = None"
  obtains t where "child s = None" "\<not> spawnThrows os"
    "startSession cfg g m wi c uuid now os s
       = (None, (announced cfg g m (normalizeWorkdir cfg wi) uuid now t s)
                  \<lparr>child := Some (commandLine cfg g m (normalizeWorkdir cfg wi))\<rparr>)"
  using assms by (cases rule: startSession_cases[of s cfg g m wi c uuid now os]) auto

lemma startSession_busy_iff:
  "fst (startSession cfg g m wi c uuid now os s) = Some AlreadyRunning \<longleftrightarrow> child s \<noteq> None"
  by (cases rule: startSession_cases[of s cfg g m wi c uuid now os]) auto

lemma fold_invariant: "(\<And>x s. P s \<Longrightarrow> P (f x s)) \<Longrightarrow> P s \<Longrightarrow> P (fold f xs s)"
  by (induction xs arbitrary: s) simp_all

lemma sameRun_refl: "sameRun a a"
  by (simp add: sameRun_def)

lemma sameCore_refl: "sameCore s s"
  by (simp add: sameCore_def option.rel_refl sameRun_refl)

lemma sameCore_trans: "sameCore a b \<Longrightarrow> sameCore b c \<Longrightarrow> sameCore a c"
  unfolding sameCore_def
  by (cases "currentSession a"; cases "currentSession b"; cases "currentSession c")
     (auto simp: sameRun_def)

lemma broadcast_sameCore: "sameCore s (broadcast l s)"
  by (simp add: sameCore_def broadcast_fields option.rel_refl sameRun_refl)

lemma onStdoutLine_sameCore: "sameCore s (onStdoutLine l s)"
  by (cases "currentSession s")
     (auto simp: sameCore_def onStdoutLine_def Let_def broadcast_fields readSessions_update sameRun_def
        split: option.splits)

lemma onStdout_sameCore: "sameCore s (onStdout chunk s)"
  unfolding onStdout_def
  by (rule fold_invariant[where P = "sameCore s"]) (auto intro: sameCore_trans onStdoutLine_sameCore sameCore_refl)

lemma onStderr_sameCore: "sameCore s (onStderr chunk s)"
  unfolding onStderr_def
  by (rule fold_invariant[where P = "sameCore s"]) (auto intro: sameCore_trans broadcast_sameCore sameCore_refl)

lemma subscribe_sameCore: "sameCore s (subscribe i r s)"
  by (simp add: sameCore_def subscribe_eq readSessions_def option.rel_refl sameRun_refl)

lemma connectionClosed_sameCore: "sameCore s (connectionClosed i s)"
  by (simp add: sameCore_def connectionClosed_def readSessions_def option.rel_refl sameRun_refl)

lemma onExit_core:
  "child (onExit code signal now s) = None"
  "currentSession (onExit code signal now s) = map_option (finalize code signal now) (currentSession s)"
  "readSessions (onExit code signal now s) =
     (case currentSession s of
        None \<Rightarrow> readSessions s
      | Some cs \<Rightarrow> map (\<lambda>r. if sess_id r = sess_id cs then finalize code signal now cs else r) (readSessions s))"
  by (auto simp: onExit_def Let_def broadcast_fields saveSessions_fields readSessions_update finalize_def
      split: option.splits)

lemma exitStatus_not_running: "exitStatus code signal \<noteq> running"
  by (simp add: exitStatus_def)

lemma oneRunning_count: "oneRunning s \<Longrightarrow> runningCount s \<le> 1"
  by (auto simp: oneRunning_def runningCount_def filter_empty_conv split: option.splits)

lemma oneRunning_sameCore: "sameCore s s' \<Longrightarrow> oneRunning s \<Longrightarrow> oneRunning s'"
  unfolding sameCore_def oneRunning_def runningCount_def
  by (cases "currentSession s"; cases "currentSession s'") (auto simp: sameRun_def split: option.splits)

lemma oneRunning_start:
  assumes o: "oneRunning s" and ns: "\<not> spawnThrows os"
  shows "oneRunning (snd (startSession cfg g m wi c uuid now os s))"
proof (cases rule: startSession_cases[of s cfg g m wi c uuid now os])
  case busy
  then show ?thesis using o by simp
next
  case missing
  then show ?thesis using o by simp
next
  case (mkdir p t)
  then show ?thesis using o by (simp add: oneRunning_def runningCount_def readSessions_update)
next
  case (save t)
  then show ?thesis using o by (simp add: oneRunning_def runningCount_def readSessions_update)
next
  case (spawn t)
  then show ?thesis using ns by simp
next
  case (started t)
  have n: "\<forall>r \<in> set (readSessions s). status r \<noteq> running"
    using o started(1) by (simp add: oneRunning_def)
  then have f: "[r \<leftarrow> readSessions s. status r = running] = []" by (simp add: filter_empty_conv)
  show ?thesis
    using started n f
    by (auto simp: oneRunning_def runningCount_def newSession_def announced_fields readSessions_update)
qed

lemma oneRunning_exit: "child s \<noteq> None \<Longrightarrow> oneRunning s \<Longrightarrow> oneRunning (onExit code signal now s)"
  using exitStatus_not_running[of code signal]
  by (auto simp: oneRunning_def onExit_core finalize_def split: option.splits)

lemma oneRunning_step:
  "e \<noteq> Restart \<Longrightarrow> \<not> spawnFails e \<Longrightarrow> oneRunning s \<Longrightarrow> oneRunning (step cfg e s)"
proof (cases e)
  case (Start g m wi c uuid now os)
  assume "oneRunning s" "\<not> spawnFails e" then show ?thesis using Start by (simp add: oneRunning_start)
next
  case (ChildStdout chunk)
  assume "oneRunning s" then show ?thesis using ChildStdout oneRunning_sameCore[OF onStdout_sameCore] by simp
next
  case (ChildStderr chunk)
  assume "oneRunning s" then show ?thesis using ChildStderr oneRunning_sameCore[OF onStderr_sameCore] by simp
next
  case (ChildExit code signal now)
  assume "oneRunning s" then show ?thesis using ChildExit oneRunning_exit by simp
next
  case Stop
  assume "oneRunning s" then show ?thesis using Stop by simp
next
  case (Connect i r)
  assume "oneRunning s" then show ?thesis using Connect oneRunning_sameCore[OF subscribe_sameCore] by simp
next
  case (Disconnect i)
  assume "oneRunning s" then show ?thesis using Disconnect oneRunning_sameCore[OF connectionClosed_sameCore] by simp
next
  case Restart
  assume "e \<noteq> Restart" then show ?thesis using Restart by simp
qed

lemma oneRunning_run:
  "\<forall>e \<in> set evs. e \<noteq> Restart \<and> \<not> spawnFails e \<Longrightarrow> oneRunning s \<Longrightarrow> oneRunning (run cfg evs s)"
  unfolding run_def
  by (induction evs arbitrary: s) (auto simp: oneRunning_step)

lemma recordsConsistent_sameCore: "sameCore s s' \<Longrightarrow> recordsConsistent s \<Longrightarrow> recordsConsistent s'"
  unfolding sameCore_def recordsConsistent_def
  by (cases "currentSession s"; cases "currentSession s'") (auto simp: sameRun_def endedIffNotRunning_def)

lemma recordsConsistent_start:
  assumes o: "recordsConsistent s"
  shows "recordsConsistent (snd (startSession cfg g m wi c uuid now os s))"
proof (cases rule: startSession_cases[of s cfg g m wi c uuid now os])
  case busy
  then show ?thesis using o by simp
next
  case missing
  then show ?thesis using o by simp
next
  case (mkdir p t)
  then show ?thesis using o by (simp add: recordsConsistent_def readSessions_update)
next
  case (save t)
  then show ?thesis using o
    by (simp add: recordsConsistent_def readSessions_update newSession_def endedIffNotRunning_def)
next
  case (spawn t)
  then show ?thesis using o
    by (auto simp: recordsConsistent_def newSession_def endedIffNotRunning_def announced_fields)
next
  case (started t)
  then show ?thesis using o
    by (auto simp: recordsConsistent_def newSession_def endedIffNotRunning_def announced_fields readSessions_update)
qed

lemma recordsConsistent_exit: "recordsConsistent s \<Longrightarrow> recordsConsistent (onExit code signal now s)"
  using exitStatus_not_running[of code signal]
  by (auto simp: recordsConsistent_def onExit_core finalize_def endedIffNotRunning_def split: option.splits)

lemma recordsConsistent_step: "recordsConsistent s \<Longrightarrow> recordsConsistent (step cfg e s)"
proof (cases e)
  case (Start g m wi c uuid now os)
  assume "recordsConsistent s" then show ?thesis using Start by (simp add: recordsConsistent_start)
next
  case (ChildStdout chunk)
  assume "recordsConsistent s" then show ?thesis
    using ChildStdout recordsConsistent_sameCore[OF onStdout_sameCore] by simp
next
  case (ChildStderr chunk)
  assume "recordsConsistent s" then show ?thesis
    using ChildStderr recordsConsistent_sameCore[OF onStderr_sameCore] by simp
next
  case (ChildExit code signal now)
  assume "recordsConsistent s" then show ?thesis using ChildExit recordsConsistent_exit by simp
next
  case Stop
  assume "recordsConsistent s" then show ?thesis using Stop by simp
next
  case (Connect i r)
  assume "recordsConsistent s" then show ?thesis
    using Connect recordsConsistent_sameCore[OF subscribe_sameCore] by simp
next
  case (Disconnect i)
  assume "recordsConsistent s" then show ?thesis
    using Disconnect recordsConsistent_sameCore[OF connectionClosed_sameCore] by simp
next
  case Restart
  assume "recordsConsistent s" then show ?thesis
    using Restart
    by (auto simp: recordsConsistent_def createServerContext_def readSessions_def
             split: option.splits attempt.splits)
qed

lemma recordsConsistent_run: "recordsConsistent s \<Longrightarrow> recordsConsistent (run cfg evs s)"
  unfolding run_def
  by (induction evs arbitrary: s) (auto simp: recordsConsistent_step)

lemma emits_refl: "emits keep s s"
  unfolding emits_def by (auto intro: exI[of _ "[]"])

lemma emits_trans: "emits keep a b \<Longrightarrow> emits keep b c \<Longrightarrow> emits keep a c"
proof -
  assume ab: "emits keep a b" and bc: "emits keep b c"
  from ab obtain ls where 1: "clients b = clients a" "published b = published a @ ls"
    "keep \<longrightarrow> logBuffer b = logBuffer a @ ls"
    "\<And>r. responses b r = responses a r
        @ concat (map (\<lambda>l. replicate (length [c \<leftarrow> clients a. client_res c = r]) (payload l)) ls)"
    unfolding emits_def by blast
  from bc obtain ms where 2: "clients c = clients b" "published c = published b @ ms"
    "keep \<longrightarrow> logBuffer c = logBuffer b @ ms"
    "\<And>r. responses c r = responses b r
        @ concat (map (\<lambda>l. replicate (length [c \<leftarrow> clients b. client_res c = r]) (payload l)) ms)"
    unfolding emits_def by blast
  show ?thesis unfolding emits_def
    by (intro conjI exI[of _ "ls @ ms"]) (simp_all add: 1 2)
qed

lemma emits_weaken: "emits True s s' \<Longrightarrow> emits keep s s'"
  unfolding emits_def by auto

lemma broadcast_emits: "emits True s (broadcast l s)"
  unfolding emits_def by (intro conjI exI[of _ "[l]"]) (simp_all add: broadcast_fields)

lemma emits_same:
  "clients s' = clients s \<Longrightarrow> published s' = published s \<Longrightarrow> logBuffer s' = logBuffer s
     \<Longrightarrow> responses s' = responses s \<Longrightarrow> emits keep s s'"
  unfolding emits_def by (auto intro: exI[of _ "[]"])

lemma onStdoutLine_emits: "emits True s (onStdoutLine l s)"
proof -
  have "emits True (broadcast l s) (onStdoutLine l s)"
    by (rule emits_same) (simp_all add: onStdoutLine_def Let_def split: option.splits)
  with broadcast_emits show ?thesis by (rule emits_trans)
qed

lemma onStdout_emits: "emits True s (onStdout chunk s)"
  unfolding onStdout_def
  by (rule fold_invariant[where P = "emits True s"]) (auto intro: emits_trans onStdoutLine_emits emits_refl)

lemma onStderr_emits: "emits True s (onStderr chunk s)"
  unfolding onStderr_def
  by (rule fold_invariant[where P = "emits True s"]) (auto intro: emits_trans broadcast_emits emits_refl)

lemma onExit_emits: "emits True s (onExit code signal now s)"
proof -
  define l where "l = ''[exit] code='' @ (case code of None \<Rightarrow> ''null'' | Some c \<Rightarrow> numberToString c)
                            @ '' signal='' @ (case signal of None \<Rightarrow> ''null'' | Some sig \<Rightarrow> sig)"
  have "emits True (broadcast l s) (onExit code signal now s)"
    unfolding onExit_def l_def[symmetric] Let_def
    by (cases "currentSession s"; rule emits_same)
       (simp_all add: saveSessions_def broadcast_fields)
  with broadcast_emits show ?thesis by (rule emits_trans)
qed

lemma announced_emits:
  "emits False s (announced cfg g m wd uuid now t s)"
proof -
  define s5 where "s5 = saveSessions (\<lambda>sessions. sessions @ [newSession cfg g m wd uuid now])
       (s\<lparr>fsys := t, logBuffer := [], currentSession := Some (newSession cfg g m wd uuid now)\<rparr>)"
  have a: "emits False s s5"
    unfolding emits_def
    by (intro conjI exI[of _ "[]"]) (simp_all add: s5_def saveSessions_def)
  have b: "emits False s5 (announced cfg g m wd uuid now t s)"
    unfolding announced_def s5_def[symmetric]
    by (intro emits_trans[OF _ broadcast_emits[THEN emits_weaken]] broadcast_emits[THEN emits_weaken])
  show ?thesis using a b by (rule emits_trans)
qed

lemma startSession_emits: "emits False s (snd (startSession cfg g m wi c uuid now os s))"
proof (cases rule: startSession_cases[of s cfg g m wi c uuid now os])
  case busy
  then show ?thesis by (simp add: emits_refl)
next
  case missing
  then show ?thesis by (simp add: emits_refl)
next
  case (mkdir p t)
  then show ?thesis unfolding emits_def by (intro conjI exI[of _ "[]"]) simp_all
next
  case (save t)
  then show ?thesis unfolding emits_def by (intro conjI exI[of _ "[]"]) simp_all
next
  case (spawn t)
  then show ?thesis by (simp add: announced_emits)
next
  case (started t)
  have "emits False (announced cfg g m (normalizeWorkdir cfg wi) uuid now t s)
          (snd (startSession cfg g m wi c uuid now os s))"
    unfolding started emits_def by (intro conjI exI[of _ "[]"]) simp_all
  with announced_emits show ?thesis by (rule emits_trans)
qed

lemma buffered_refl: "buffered s s"
  by (simp add: buffered_def)

lemma buffered_trans: "buffered a b \<Longrightarrow> buffered b c \<Longrightarrow> buffered a c"
  unfolding buffered_def by auto

lemma emits_buffered: "emits True s s' \<Longrightarrow> buffered s s'"
  unfolding emits_def buffered_def by auto

lemma buffered_since: "buffered s s' \<Longrightarrow> logBuffer s' = logBuffer s @ publishedSince s s'"
  unfolding buffered_def publishedSince_def by auto

lemma buffered_step:
  assumes "e \<noteq> Restart" "\<And>g m wi c u n os. e \<noteq> Start g m wi c u n os"
  shows "buffered s (step cfg e s)"
proof (cases e)
  case (Start g m wi c u n os)
  then show ?thesis using assms(2) by simp
next
  case (ChildStdout chunk)
  then show ?thesis using onStdout_emits[THEN emits_buffered] by simp
next
  case (ChildStderr chunk)
  then show ?thesis using onStderr_emits[THEN emits_buffered] by simp
next
  case (ChildExit code signal now)
  then show ?thesis using onExit_emits[THEN emits_buffered] by (simp add: buffered_refl)
next
  case Stop
  then show ?thesis by (simp add: buffered_refl)
next
  case (Connect j q)
  then show ?thesis by (simp add: buffered_def subscribe_eq)
next
  case (Disconnect j)
  then show ?thesis by (simp add: buffered_def connectionClosed_def)
next
  case Restart
  then show ?thesis using assms(1) by simp
qed

lemma buffered_run:
  "\<forall>e \<in> set evs. e \<noteq> Restart \<and> (\<forall>g m wi c u n os. e \<noteq> Start g m wi c u n os) \<Longrightarrow> buffered s (run cfg evs s)"
proof (induction evs arbitrary: s)
  case Nil
  then show ?case by (simp add: run_def buffered_refl)
next
  case (Cons e evs)
  have "buffered s (step cfg e s)" using Cons.prems by (intro buffered_step) auto
  moreover have "buffered (step cfg e s) (run cfg evs (step cfg e s))" using Cons by simp
  ultimately show ?case unfolding run_def by (auto intro: buffered_trans simp: run_def)
qed

lemma viewOf_emits: "viewOf i r sb s \<Longrightarrow> emits keep s s' \<Longrightarrow> viewOf i r sb s'"
proof -
  assume v: "viewOf i r sb s" and e: "emits keep s s'"
  from v obtain ls where 1: "length [c \<leftarrow> clients s. client_res c = r] = 1"
    "\<forall>c \<in> set (clients s). client_res c = r \<longrightarrow> client_id c = i"
    "published s = published sb @ ls" "responses s r = responses sb r @ map payload ls"
    unfolding viewOf_def by blast
  from e obtain ms where 2: "clients s' = clients s" "published s' = published s @ ms"
    "responses s' r = responses s r
        @ concat (map (\<lambda>l. replicate (length [c \<leftarrow> clients s. client_res c = r]) (payload l)) ms)"
    unfolding emits_def by blast
  have "concat (map (\<lambda>l. replicate 1 (payload l)) ms) = map payload ms" by (induction ms) simp_all
  then have "published s' = published sb @ (ls @ ms) \<and> responses s' r = responses sb r @ map payload (ls @ ms)"
    using 1 2 by simp
  then show ?thesis unfolding viewOf_def using 1(1,2) 2(1) by metis
qed

lemma filter_removeFirst:
  "\<forall>c \<in> set cs. Q c \<longrightarrow> \<not> P c \<Longrightarrow> filter Q (removeFirst P cs) = filter Q cs"
  by (induction cs) auto

lemma set_removeFirst: "set (removeFirst P cs) \<subseteq> set cs"
  by (induction cs) auto

lemma viewOf_subscribe: "viewOf i r sb s \<Longrightarrow> q \<noteq> r \<Longrightarrow> viewOf i r sb (subscribe j q s)"
  unfolding viewOf_def by (simp add: subscribe_eq)

lemma viewOf_closed: "viewOf i r sb s \<Longrightarrow> j \<noteq> i \<Longrightarrow> viewOf i r sb (connectionClosed j s)"
proof -
  assume v: "viewOf i r sb s" and j: "j \<noteq> i"
  then have "\<forall>c \<in> set (clients s). client_res c = r \<longrightarrow> \<not> client_id c = j"
    unfolding viewOf_def by auto
  then have "filter (\<lambda>c. client_res c = r) (removeFirst (\<lambda>c. client_id c = j) (clients s))
      = filter (\<lambda>c. client_res c = r) (clients s)" by (rule filter_removeFirst)
  then show ?thesis using v set_removeFirst[of "\<lambda>c. client_id c = j" "clients s"]
    unfolding viewOf_def connectionClosed_def by auto
qed

lemma viewOf_step:
  assumes "e \<noteq> Restart" "e \<noteq> Disconnect i" "\<And>j. e \<noteq> Connect j r" and v: "viewOf i r sb s"
  shows "viewOf i r sb (step cfg e s)"
proof (cases e)
  case (Start g m wi c u n os)
  then show ?thesis using viewOf_emits[OF v startSession_emits] by simp
next
  case (ChildStdout chunk)
  then show ?thesis using viewOf_emits[OF v onStdout_emits] by simp
next
  case (ChildStderr chunk)
  then show ?thesis using viewOf_emits[OF v onStderr_emits] by simp
next
  case (ChildExit code signal now)
  then show ?thesis using viewOf_emits[OF v onExit_emits] v by simp
next
  case Stop
  then show ?thesis using v by simp
next
  case (Connect j q)
  then show ?thesis using viewOf_subscribe[OF v, of q j] assms(3) by auto
next
  case (Disconnect j)
  then show ?thesis using viewOf_closed[OF v, of j] assms(2) by auto
next
  case Restart
  then show ?thesis using assms(1) by simp
qed

lemma viewOf_run:
  "\<forall>e \<in> set evs. e \<noteq> Restart \<and> e \<noteq> Disconnect i \<and> (\<forall>j. e \<noteq> Connect j r) \<Longrightarrow> viewOf i r sb s
     \<Longrightarrow> viewOf i r sb (run cfg evs s)"
proof (induction evs arbitrary: s)
  case Nil
  then show ?case by (simp add: run_def)
next
  case (Cons e evs)
  have "viewOf i r sb (step cfg e s)" using Cons.prems by (intro viewOf_step) auto
  then have "viewOf i r sb (run cfg evs (step cfg e s))" using Cons by simp
  then show ?case by (simp add: run_def)
qed

lemma viewOf_subscribed:
  "r \<notin> client_res ` set (clients s) \<Longrightarrow> viewOf i r (subscribe i r s) (subscribe i r s)"
proof -
  assume "r \<notin> client_res ` set (clients s)"
  then have "[c \<leftarrow> clients s. client_res c = r] = []" by (auto simp: filter_empty_conv)
  then show ?thesis using \<open>r \<notin> client_res ` set (clients s)\<close>
    unfolding viewOf_def by (auto simp: subscribe_eq)
qed

lemma run_append: "run cfg (xs @ ys) s = run cfg ys (run cfg xs s)"
  by (simp add: run_def)

lemma run_Cons: "run cfg (e # es) s = run cfg es (step cfg e s)"
  by (simp add: run_def)

lemma sample_context: "createServerContext sampleConfig sampleTree None = Some sampleServer"
  by (simp add: createServerContext_def mkdirSync_def sampleConfig_def sampleTree_def sampleServer_def
      pathNames_def startDir_def isAbsolute_def kindAt_def)

lemma sample_fresh: "runningCount sampleServer = 0"
  by (simp add: runningCount_def readSessions_def sampleServer_def)

lemma sample_normalize: "normalizeWorkdir sampleConfig (Some ''/tmp/proj'') = ''/tmp/proj''"
  by code_simp

lemma sample_stateDir: "stateDirFor sampleConfig ''/tmp/proj'' = ''/var/millhouse/L3RtcC9wcm9q''"
  by code_simp

lemma sample_start_passes:
  "fst (startSession sampleConfig ''add a health endpoint'' 0 (Some ''/tmp/proj'') False ''id-1''
          ''2026-01-01T10:00:00.000Z'' noFaults sampleServer) = None"
  by code_simp

lemma sample_started:
  "child (step sampleConfig sampleStart sampleServer) \<noteq> None"
  "currentSession (step sampleConfig sampleStart sampleServer)
     = Some (newSession sampleConfig ''add a health endpoint'' 0 ''/tmp/proj'' ''id-1'' ''2026-01-01T10:00:00.000Z'')"
  "readSessions (step sampleConfig sampleStart sampleServer)
     = [newSession sampleConfig ''add a health endpoint'' 0 ''/tmp/proj'' ''id-1'' ''2026-01-01T10:00:00.000Z'']"
proof -
  have r: "readSessions sampleServer = []" by (simp add: readSessions_def sampleServer_def)
  from sample_start_passes obtain t where
    e: "startSession sampleConfig ''add a health endpoint'' 0 (Some ''/tmp/proj'') False ''id-1''
          ''2026-01-01T10:00:00.000Z'' noFaults sampleServer
        = (None, (announced sampleConfig ''add a health endpoint'' 0 (normalizeWorkdir sampleConfig (Some ''/tmp/proj''))
                    ''id-1'' ''2026-01-01T10:00:00.000Z'' t sampleServer)
                  \<lparr>child := Some (commandLine sampleConfig ''add a health endpoint'' 0
                                    (normalizeWorkdir sampleConfig (Some ''/tmp/proj'')))\<rparr>)"
    by (rule startSession_ok)
  show "child (step sampleConfig sampleStart sampleServer) \<noteq> None"
    using e by (simp add: sampleStart_def)
  show "currentSession (step sampleConfig sampleStart sampleServer)
     = Some (newSession sampleConfig ''add a health endpoint'' 0 ''/tmp/proj'' ''id-1'' ''2026-01-01T10:00:00.000Z'')"
    using e by (simp add: sampleStart_def sample_normalize announced_fields)
  show "readSessions (step sampleConfig sampleStart sampleServer)
     = [newSession sampleConfig ''add a health endpoint'' 0 ''/tmp/proj'' ''id-1'' ''2026-01-01T10:00:00.000Z'']"
    using e r by (simp add: sampleStart_def sample_normalize announced_fields readSessions_update)
qed

lemma sample_pre:
  "responses (run sampleConfig [ChildStdout (''one'' @ [CHR 0x0A] @ ''two'' @ [CHR 0x0A])]
      (step sampleConfig sampleStart sampleServer)) 7 = []"
  "7 \<notin> client_res ` set (clients (run sampleConfig [ChildStdout (''one'' @ [CHR 0x0A] @ ''two'' @ [CHR 0x0A])]
      (step sampleConfig sampleStart sampleServer)))"
  unfolding sampleStart_def by code_simp+

lemma sample_published:
  "logBuffer (step sampleConfig sampleStart sampleServer)
     @ publishedSince (step sampleConfig sampleStart sampleServer)
        (run sampleConfig
          ([ChildStdout (''one'' @ [CHR 0x0A] @ ''two'' @ [CHR 0x0A])] @ Connect ''observer-1'' 7 #
           [ChildStderr (''three'' @ [CHR 0x0A]), Connect ''observer-2'' 8,
            ChildExit (Some 0) None ''2026-01-01T10:05:00.000Z''])
          (step sampleConfig sampleStart sampleServer))
   = [''[milhouse] Starting run'' @ [CHR 0xE2, CHR 0x80, CHR 0xA6],
      ''[milhouse] workdir: /tmp/proj'',
      ''[milhouse] state dir: /var/millhouse/L3RtcC9wcm9q'',
      ''one'', ''two'', ''[stderr] three'', ''[exit] code=0 signal=null'']"
  unfolding sampleStart_def by code_simp

lemma payload_inj: "map payload xs = map payload ys \<Longrightarrow> xs = ys"
proof -
  have "inj payload" by (simp add: inj_def payload_def)
  then show "map payload xs = map payload ys \<Longrightarrow> xs = ys" by (simp add: inj_map_eq_map)
qed

lemma payload_eq: "payload = (\<lambda>line. ''data: '' @ line @ [CHR 0x0A, CHR 0x0A])"
  by (rule ext) (simp add: payload_def)

lemma onStdoutLine_published: "published (onStdoutLine l s) = published s @ [l]"
  by (simp add: onStdoutLine_def Let_def broadcast_fields split: option.splits)

lemma onStdout_published:
  "published (onStdout chunk s) = published s @ filter (\<lambda>l. l \<noteq> []) (splitLines chunk)"
proof -
  have "published (fold onStdoutLine ls s) = published s @ ls" for ls
    by (induction ls arbitrary: s) (simp_all add: onStdoutLine_published)
  then show ?thesis by (simp add: onStdout_def)
qed

lemma onStderr_published:
  "published (onStderr chunk s)
     = published s @ map (\<lambda>l. ''[stderr] '' @ l) (filter (\<lambda>l. l \<noteq> []) (splitLines chunk))"
proof -
  have "published (fold (\<lambda>l. broadcast (''[stderr] '' @ l)) ls s) = published s @ map (\<lambda>l. ''[stderr] '' @ l) ls" for ls
    by (induction ls arbitrary: s) (simp_all add: broadcast_fields)
  then show ?thesis by (simp add: onStderr_def)
qed

lemma outputOnly_published:
  "outputOnly e \<Longrightarrow> published (step cfg e s) = published s @ linesOf e"
  by (cases e) (simp_all add: onStdout_published onStderr_published subscribe_eq connectionClosed_def)

lemma outputOnly_run:
  "\<forall>e \<in> set evs. outputOnly e \<Longrightarrow> published (run cfg evs s) = published s @ concat (map linesOf evs)"
proof (induction evs arbitrary: s)
  case Nil
  then show ?case by (simp add: run_def)
next
  case (Cons e evs)
  then show ?case by (simp add: run_Cons outputOnly_published)
qed

subsection \<open>What a subscriber sees\<close>

text \<open>
  Claim C5. Let the events \<open>pre\<close> (no start of a run, no restart of the server) take the
  server from \<open>s0\<close> to the moment an observer connects with a fresh response \<open>r\<close>, and let
  the events \<open>post\<close> follow while the observer stays connected. The buffer at that moment
  is the buffer of \<open>s0\<close> followed by the lines published since. On connecting, the
  observer receives one chunk \<^verbatim>\<open>data: <line>\<close> followed by two line feeds for each of these
  lines, each once and in publish order; after \<open>post\<close> it has received these chunks
  followed by one such chunk for every line published since it connected, each once and
  in publish order: no gap, no duplicate. The chunks determine the lines: no other list
  of lines gives the chunks received. And where the events are the child's output (and
  stop requests and other observers), the lines received are, in order, the non-empty
  lines of the chunks the child wrote.
\<close>

theorem subscriber_sees_replay_then_live:
  assumes "\<forall>e \<in> set pre. e \<noteq> Restart \<and> (\<forall>g m wi c u n os. e \<noteq> Start g m wi c u n os)"
    and "responses (run cfg pre s0) r = []"
    and "r \<notin> client_res ` set (clients (run cfg pre s0))"
    and "\<forall>e \<in> set post. e \<noteq> Restart \<and> e \<noteq> Disconnect i \<and> (\<forall>j. e \<noteq> Connect j r)"
  shows "logBuffer (run cfg pre s0) = logBuffer s0 @ publishedSince s0 (run cfg pre s0)
     \<and> responses (run cfg (pre @ [Connect i r]) s0) r
         = map (\<lambda>line. ''data: '' @ line @ [CHR 0x0A, CHR 0x0A])
             (logBuffer s0 @ publishedSince s0 (run cfg pre s0))
     \<and> responses (run cfg (pre @ Connect i r # post) s0) r
         = map (\<lambda>line. ''data: '' @ line @ [CHR 0x0A, CHR 0x0A])
             (logBuffer s0 @ publishedSince s0 (run cfg (pre @ Connect i r # post) s0))
     \<and> (\<forall>ls. responses (run cfg (pre @ Connect i r # post) s0) r
                 = map (\<lambda>line. ''data: '' @ line @ [CHR 0x0A, CHR 0x0A]) ls
              \<longrightarrow> ls = logBuffer s0 @ publishedSince s0 (run cfg (pre @ Connect i r # post) s0))
     \<and> ((\<forall>e \<in> set (pre @ post). outputOnly e) \<longrightarrow>
          responses (run cfg (pre @ Connect i r # post) s0) r
            = map (\<lambda>line. ''data: '' @ line @ [CHR 0x0A, CHR 0x0A])
                (logBuffer s0 @ concat (map linesOf (pre @ post))))"
proof -
  define s1 where "s1 = run cfg pre s0"
  define s2 where "s2 = subscribe i r s1"
  define s3 where "s3 = run cfg post s2"
  have b: "buffered s0 s1" unfolding s1_def using assms(1) by (rule buffered_run)
  then obtain ls where ls: "published s1 = published s0 @ ls" "logBuffer s1 = logBuffer s0 @ ls"
    unfolding buffered_def by blast
  have 1: "logBuffer s1 = logBuffer s0 @ publishedSince s0 s1" using b by (rule buffered_since)
  have 2: "responses s2 r = map payload (logBuffer s1)"
    using assms(2) by (simp add: s2_def s1_def subscribe_eq)
  have "viewOf i r s2 s2" unfolding s2_def using assms(3) unfolding s1_def[symmetric] by (rule viewOf_subscribed)
  then have "viewOf i r s2 s3" unfolding s3_def using assms(4) by (intro viewOf_run)
  then obtain ms where ms: "published s3 = published s2 @ ms" "responses s3 r = responses s2 r @ map payload ms"
    unfolding viewOf_def by blast
  have p2: "published s2 = published s1" by (simp add: s2_def subscribe_eq)
  have "publishedSince s0 s3 = ls @ ms" using ms(1) p2 ls(1) by (simp add: publishedSince_def)
  then have 3: "responses s3 r = map payload (logBuffer s0 @ publishedSince s0 s3)"
    using ms(2) 2 ls(2) by simp
  have r2: "run cfg (pre @ [Connect i r]) s0 = s2" by (simp add: run_append run_Cons s1_def s2_def run_def)
  have r3: "run cfg (pre @ Connect i r # post) s0 = s3"
    by (simp add: run_append run_Cons s1_def s2_def s3_def)
  have 4: "ls' = logBuffer s0 @ publishedSince s0 s3" if "responses s3 r = map payload ls'" for ls'
    using that 3 payload_inj[of ls' "logBuffer s0 @ publishedSince s0 s3"] by simp
  have 5: "responses s3 r = map payload (logBuffer s0 @ concat (map linesOf (pre @ post)))"
    if o: "\<forall>e \<in> set (pre @ post). outputOnly e"
  proof -
    have "\<forall>e \<in> set (pre @ Connect i r # post). outputOnly e" using o by auto
    then have "published (run cfg (pre @ Connect i r # post) s0)
        = published s0 @ concat (map linesOf (pre @ Connect i r # post))"
      by (rule outputOnly_run)
    then have "publishedSince s0 s3 = concat (map linesOf (pre @ post))"
      unfolding r3 by (simp add: publishedSince_def)
    then show ?thesis using 3 by simp
  qed
  show ?thesis
    unfolding r2 r3 s1_def[symmetric] payload_eq[symmetric] using 1 2 3 4 5 by simp
qed

text \<open>
  An observer that connects after the three lines of the start and two lines of the
  child, and then sees a line on standard error and the exit; and one that connects to a
  server with an empty buffer between two chunks of the child's output.
\<close>

theorem subscriber_sees_replay_then_live_witness:
  "responses (run sampleConfig
          ([ChildStdout (''one'' @ [CHR 0x0A] @ ''two'' @ [CHR 0x0A])] @ Connect ''observer-1'' 7 #
           [ChildStderr (''three'' @ [CHR 0x0A]), Connect ''observer-2'' 8,
            ChildExit (Some 0) None ''2026-01-01T10:05:00.000Z''])
          (step sampleConfig sampleStart sampleServer)) 7
   = [''data: [milhouse] Starting run'' @ [CHR 0xE2, CHR 0x80, CHR 0xA6, CHR 0x0A, CHR 0x0A],
      ''data: [milhouse] workdir: /tmp/proj'' @ [CHR 0x0A, CHR 0x0A],
      ''data: [milhouse] state dir: /var/millhouse/L3RtcC9wcm9q'' @ [CHR 0x0A, CHR 0x0A],
      ''data: one'' @ [CHR 0x0A, CHR 0x0A], ''data: two'' @ [CHR 0x0A, CHR 0x0A],
      ''data: [stderr] three'' @ [CHR 0x0A, CHR 0x0A],
      ''data: [exit] code=0 signal=null'' @ [CHR 0x0A, CHR 0x0A]]
   \<and> responses (run sampleConfig
          ([ChildStdout (''one'' @ [CHR 0x0D, CHR 0x0A, CHR 0x0A] @ ''two'')] @ Connect ''observer-1'' 7 #
           [ChildStderr (''three'' @ [CHR 0x0A]), Stop])
          sampleServer) 7
   = [''data: one'' @ [CHR 0x0A, CHR 0x0A], ''data: two'' @ [CHR 0x0A, CHR 0x0A],
      ''data: [stderr] three'' @ [CHR 0x0A, CHR 0x0A]]"
proof -
  have 1: "\<forall>e \<in> set [ChildStdout (''one'' @ [CHR 0x0A] @ ''two'' @ [CHR 0x0A])].
             e \<noteq> Restart \<and> (\<forall>g m wi c u n os. e \<noteq> Start g m wi c u n os)" by simp
  have 4: "\<forall>e \<in> set [ChildStderr (''three'' @ [CHR 0x0A]), Connect ''observer-2'' 8,
                        ChildExit (Some 0) None ''2026-01-01T10:05:00.000Z''].
             e \<noteq> Restart \<and> e \<noteq> Disconnect ''observer-1'' \<and> (\<forall>j. e \<noteq> Connect j 7)" by simp
  note A = subscriber_sees_replay_then_live[OF 1 sample_pre 4]
  have a: "responses (run sampleConfig
          ([ChildStdout (''one'' @ [CHR 0x0A] @ ''two'' @ [CHR 0x0A])] @ Connect ''observer-1'' 7 #
           [ChildStderr (''three'' @ [CHR 0x0A]), Connect ''observer-2'' 8,
            ChildExit (Some 0) None ''2026-01-01T10:05:00.000Z''])
          (step sampleConfig sampleStart sampleServer)) 7
     = map (\<lambda>line. ''data: '' @ line @ [CHR 0x0A, CHR 0x0A])
        [''[milhouse] Starting run'' @ [CHR 0xE2, CHR 0x80, CHR 0xA6],
         ''[milhouse] workdir: /tmp/proj'',
         ''[milhouse] state dir: /var/millhouse/L3RtcC9wcm9q'',
         ''one'', ''two'', ''[stderr] three'', ''[exit] code=0 signal=null'']"
    using A unfolding sample_published by blast
  have 1: "\<forall>e \<in> set [ChildStdout (''one'' @ [CHR 0x0D, CHR 0x0A, CHR 0x0A] @ ''two'')].
             e \<noteq> Restart \<and> (\<forall>g m wi c u n os. e \<noteq> Start g m wi c u n os)" by simp
  have 2: "responses (run sampleConfig [ChildStdout (''one'' @ [CHR 0x0D, CHR 0x0A, CHR 0x0A] @ ''two'')] sampleServer) 7 = []"
    by code_simp
  have 3: "7 \<notin> client_res ` set (clients (run sampleConfig
             [ChildStdout (''one'' @ [CHR 0x0D, CHR 0x0A, CHR 0x0A] @ ''two'')] sampleServer))"
    by code_simp
  have 4: "\<forall>e \<in> set [ChildStderr (''three'' @ [CHR 0x0A]), Stop].
             e \<noteq> Restart \<and> e \<noteq> Disconnect ''observer-1'' \<and> (\<forall>j. e \<noteq> Connect j 7)" by simp
  have 5: "\<forall>e \<in> set ([ChildStdout (''one'' @ [CHR 0x0D, CHR 0x0A, CHR 0x0A] @ ''two'')]
                        @ [ChildStderr (''three'' @ [CHR 0x0A]), Stop]). outputOnly e" by simp
  have 6: "logBuffer sampleServer @ concat (map linesOf
             ([ChildStdout (''one'' @ [CHR 0x0D, CHR 0x0A, CHR 0x0A] @ ''two'')]
               @ [ChildStderr (''three'' @ [CHR 0x0A]), Stop]))
           = [''one'', ''two'', ''[stderr] three'']"
    by code_simp
  note B = subscriber_sees_replay_then_live[OF 1 2 3 4]
  have b: "responses (run sampleConfig
          ([ChildStdout (''one'' @ [CHR 0x0D, CHR 0x0A, CHR 0x0A] @ ''two'')] @ Connect ''observer-1'' 7 #
           [ChildStderr (''three'' @ [CHR 0x0A]), Stop])
          sampleServer) 7
     = map (\<lambda>line. ''data: '' @ line @ [CHR 0x0A, CHR 0x0A]) [''one'', ''two'', ''[stderr] three'']"
    using B 5 unfolding 6[symmetric] by blast
  show ?thesis unfolding a b by simp
qed
subsection \<open>At most one running record\<close>

text \<open>
  Claim C2, as amended. For a server process that comes up over a registry document with
  no running record, every sequence of events of that one process (calls of start,
  output and exit of the child, stop requests, observers that come and go; no end of the
  process) in which no call of start has \<^verbatim>\<open>spawn\<close> throw leaves, after each of its events,
  at most one record with status \<^verbatim>\<open>running\<close> in the registry document. Calls of start that
  end with any other error are among these events.
\<close>

theorem one_running_record_per_server_process:
  assumes "createServerContext cfg t doc = Some s0"
    and "runningCount s0 = 0"
    and "\<forall>e \<in> set evs. e \<noteq> Restart \<and> \<not> spawnFails e"
  shows "runningCount (run cfg (take k evs) s0) \<le> 1"
proof -
  have "child s0 = None" using assms(1)
    by (auto simp: createServerContext_def split: attempt.splits)
  then have "oneRunning s0"
    using assms(2) by (auto simp: oneRunning_def runningCount_def filter_empty_conv)
  moreover have "\<forall>e \<in> set (take k evs). e \<noteq> Restart \<and> \<not> spawnFails e"
    using assms(3) by (auto dest: in_set_takeD)
  ultimately show ?thesis by (intro oneRunning_count oneRunning_run)
qed

text \<open>
  A start that cannot make its working directory, a run, its exit, a start whose registry
  write fails, and a second run.
\<close>

theorem one_running_record_per_server_process_witness:
  "runningCount (run sampleConfig
      [Start ''tidy up'' 0 (Some ''/tmp/locked/proj'') True ''id-0'' ''2026-01-01T09:00:00.000Z'' noFaults,
       sampleStart, ChildStdout (''thread: 019a-7f'' @ [CHR 0x0A]),
       ChildExit (Some 0) None ''2026-01-01T10:05:00.000Z'',
       Start ''tidy up'' 0 (Some ''/tmp/proj'') True ''id-3'' ''2026-01-01T10:30:00.000Z''
         \<lparr>saveThrows = True, spawnThrows = False\<rparr>,
       sampleRestart]
      sampleServer) \<le> 1
   \<and> runningCount (run sampleConfig
      [Start ''tidy up'' 0 (Some ''/tmp/locked/proj'') True ''id-0'' ''2026-01-01T09:00:00.000Z'' noFaults,
       sampleStart] sampleServer) = 1"
proof -
  have h: "\<forall>e \<in> set
      [Start ''tidy up'' 0 (Some ''/tmp/locked/proj'') True ''id-0'' ''2026-01-01T09:00:00.000Z'' noFaults,
       sampleStart, ChildStdout (''thread: 019a-7f'' @ [CHR 0x0A]),
       ChildExit (Some 0) None ''2026-01-01T10:05:00.000Z'',
       Start ''tidy up'' 0 (Some ''/tmp/proj'') True ''id-3'' ''2026-01-01T10:30:00.000Z''
         \<lparr>saveThrows = True, spawnThrows = False\<rparr>,
       sampleRestart]. e \<noteq> Restart \<and> \<not> spawnFails e"
    by (simp add: sampleStart_def sampleRestart_def noFaults_def)
  have a: "runningCount (run sampleConfig
      [Start ''tidy up'' 0 (Some ''/tmp/locked/proj'') True ''id-0'' ''2026-01-01T09:00:00.000Z'' noFaults,
       sampleStart] sampleServer) = 1"
    unfolding sampleStart_def by code_simp
  from one_running_record_per_server_process[OF sample_context sample_fresh h, of 6] a
  show ?thesis by simp
qed

text \<open>
  The claim as stated fails in two ways. Across a restart of the supervisor: the server
  process ends while a run is active, the record of that run stays \<^verbatim>\<open>running\<close> in the
  durable document, and the next process, which knows of no child, starts a second run.
  And within one process: \<^verbatim>\<open>spawn\<close> throws after the record was appended, no child is
  set, and the next start appends a second running record.
\<close>

theorem two_running_records_in_registry:
  "runningCount (run sampleConfig [sampleStart, Restart, sampleRestart] sampleServer) = 2
   \<and> runningCount (run sampleConfig [sampleSpawnThrows, sampleRestart] sampleServer) = 2"
  by code_simp
subsection \<open>The exit of the child\<close>

text \<open>
  Claim C6. On the exit of the child of the current session, the session gets the status
  \<^verbatim>\<open>succeeded\<close> for exit code 0, else \<^verbatim>\<open>stopped\<close> for the signal \<^verbatim>\<open>SIGTERM\<close>, else
  \<^verbatim>\<open>failed\<close>, and \<^verbatim>\<open>endedAt\<close> is set to the time of the exit; the registry document holds
  the updated record in place of every record with the session's id; the child reference
  is cleared, so that a call of start right after it is not refused as already running.
  And over every sequence of events, restarts included, every record of the registry and
  the current session keep \<^verbatim>\<open>endedAt\<close> set exactly when the status is not \<^verbatim>\<open>running\<close>.
\<close>

theorem child_exit_finalizes_session:
  "(child s \<noteq> None \<and> currentSession s = Some cs \<longrightarrow>
      currentSession (step cfg (ChildExit code signal now) s)
        = Some (cs\<lparr>status := (if code = Some 0 then succeeded
                                else if signal = Some ''SIGTERM'' then stopped else failed),
                      endedAt := Some now\<rparr>)
      \<and> readSessions (step cfg (ChildExit code signal now) s)
           = map (\<lambda>r. if sess_id r = sess_id cs
                       then cs\<lparr>status := (if code = Some 0 then succeeded
                                            else if signal = Some ''SIGTERM'' then stopped else failed),
                               endedAt := Some now\<rparr>
                       else r) (readSessions s)
      \<and> child (step cfg (ChildExit code signal now) s) = None
      \<and> fst (startSession cfg g m wi c uuid now' os (step cfg (ChildExit code signal now) s)) \<noteq> Some AlreadyRunning)
   \<and> (recordsConsistent s0 \<longrightarrow> recordsConsistent (run cfg evs s0))"
proof (intro conjI impI)
  assume a: "child s \<noteq> None \<and> currentSession s = Some cs"
  then have st: "step cfg (ChildExit code signal now) s = onExit code signal now s" by auto
  show "currentSession (step cfg (ChildExit code signal now) s)
        = Some (cs\<lparr>status := (if code = Some 0 then succeeded
                                else if signal = Some ''SIGTERM'' then stopped else failed),
                      endedAt := Some now\<rparr>)"
    unfolding st using a by (simp add: onExit_core finalize_def exitStatus_def)
  show "readSessions (step cfg (ChildExit code signal now) s)
           = map (\<lambda>r. if sess_id r = sess_id cs
                       then cs\<lparr>status := (if code = Some 0 then succeeded
                                            else if signal = Some ''SIGTERM'' then stopped else failed),
                               endedAt := Some now\<rparr>
                       else r) (readSessions s)"
    unfolding st using a by (simp add: onExit_core finalize_def exitStatus_def)
  show c: "child (step cfg (ChildExit code signal now) s) = None"
    unfolding st by (simp add: onExit_core)
  show "fst (startSession cfg g m wi c uuid now' os (step cfg (ChildExit code signal now) s)) \<noteq> Some AlreadyRunning"
    using c by (simp add: startSession_busy_iff)
next
  assume "recordsConsistent s0"
  then show "recordsConsistent (run cfg evs s0)" by (rule recordsConsistent_run)
qed

text \<open>The three ways a run can end, on the sample server.\<close>

theorem child_exit_finalizes_session_witness:
  "map_option status (currentSession (run sampleConfig
       [sampleStart, ChildExit (Some 0) None ''2026-01-01T10:05:00.000Z''] sampleServer)) = Some succeeded
   \<and> map_option status (currentSession (run sampleConfig
       [sampleStart, ChildExit None (Some ''SIGTERM'') ''2026-01-01T10:05:00.000Z''] sampleServer)) = Some stopped
   \<and> map_option status (currentSession (run sampleConfig
       [sampleStart, ChildExit (Some 1) None ''2026-01-01T10:05:00.000Z''] sampleServer)) = Some failed
   \<and> map_option endedAt (currentSession (run sampleConfig
       [sampleStart, ChildExit (Some 0) None ''2026-01-01T10:05:00.000Z''] sampleServer))
        = Some (Some ''2026-01-01T10:05:00.000Z'')
   \<and> map status (readSessions (run sampleConfig
       [sampleStart, ChildExit (Some 0) None ''2026-01-01T10:05:00.000Z''] sampleServer)) = [succeeded]
   \<and> child (run sampleConfig
       [sampleStart, ChildExit (Some 0) None ''2026-01-01T10:05:00.000Z''] sampleServer) = None
   \<and> recordsConsistent (run sampleConfig
       [sampleStart, ChildExit (Some 0) None ''2026-01-01T10:05:00.000Z''] sampleServer)"
proof -
  let ?s = "step sampleConfig sampleStart sampleServer"
  let ?cs = "newSession sampleConfig ''add a health endpoint'' 0 ''/tmp/proj'' ''id-1'' ''2026-01-01T10:00:00.000Z''"
  have h: "child ?s \<noteq> None \<and> currentSession ?s = Some ?cs" using sample_started by simp
  have c0: "recordsConsistent sampleServer"
    by (simp add: recordsConsistent_def sampleServer_def readSessions_def)
  note T0 = child_exit_finalizes_session[of ?s ?cs sampleConfig "Some 0" None "''2026-01-01T10:05:00.000Z''"
      "''g''" 0 None True "''id-9''" "''t''" noFaults sampleServer
      "[sampleStart, ChildExit (Some 0) None ''2026-01-01T10:05:00.000Z'']"]
  note T1 = child_exit_finalizes_session[of ?s ?cs sampleConfig None "Some ''SIGTERM''" "''2026-01-01T10:05:00.000Z''"
      "''g''" 0 None True "''id-9''" "''t''" noFaults sampleServer "[]"]
  note T2 = child_exit_finalizes_session[of ?s ?cs sampleConfig "Some 1" None "''2026-01-01T10:05:00.000Z''"
      "''g''" 0 None True "''id-9''" "''t''" noFaults sampleServer "[]"]
  have r: "run sampleConfig [sampleStart, e] sampleServer = step sampleConfig e ?s" for e
    by (simp add: run_def)
  show ?thesis
    unfolding r using T0 T1 T2 h c0 sample_started(3)
    by (simp add: newSession_def r)
qed

subsection \<open>A refused start\<close>

text \<open>
  Claim C7. \<^verbatim>\<open>startSession\<close> throws the already-running error when a child is set, and the
  workdir-not-found error when no child is set, the resolved working directory does not
  exist and \<^verbatim>\<open>createIfMissing\<close> is false; it throws these two errors in no other case. When
  it throws one of them, the state is the one it was called in: no record appended, the
  buffer not reset, no session made, no child spawned, no directory made. After a start
  that succeeded, a second start without an exit in between is refused as already
  running, whatever the system does to it, and leaves the state as it is, so the two
  calls together have added exactly one record to the registry.
\<close>

theorem start_refused_without_change:
  "(child s \<noteq> None \<longrightarrow> startSession cfg g m wi c uuid now os s = (Some AlreadyRunning, s))
   \<and> (child s = None \<and> \<not> existsSync (serverCwd cfg) (normalizeWorkdir cfg wi) (fsys s) \<and> \<not> c \<longrightarrow>
        startSession cfg g m wi c uuid now os s = (Some (WorkdirNotFound (normalizeWorkdir cfg wi)), s))
   \<and> (fst (startSession cfg g m wi c uuid now os s) = Some AlreadyRunning \<longleftrightarrow> child s \<noteq> None)
   \<and> (fst (startSession cfg g m wi c uuid now os s) = Some (WorkdirNotFound w) \<longleftrightarrow>
        child s = None \<and> \<not> existsSync (serverCwd cfg) (normalizeWorkdir cfg wi) (fsys s) \<and> \<not> c
        \<and> w = normalizeWorkdir cfg wi)
   \<and> (fst (startSession cfg g m wi c uuid now os s) = Some AlreadyRunning
        \<or> fst (startSession cfg g m wi c uuid now os s) = Some (WorkdirNotFound w) \<longrightarrow>
        snd (startSession cfg g m wi c uuid now os s) = s)
   \<and> (fst (startSession cfg g m wi c uuid now os s) = None \<longrightarrow>
        startSession cfg g' m' wi' c' uuid' now' os' (snd (startSession cfg g m wi c uuid now os s))
          = (Some AlreadyRunning, snd (startSession cfg g m wi c uuid now os s))
        \<and> readSessions (run cfg [Start g m wi c uuid now os, Start g' m' wi' c' uuid' now' os'] s)
          = readSessions s @ [newSession cfg g m (normalizeWorkdir cfg wi) uuid now])"
proof (intro conjI impI)
  assume "child s \<noteq> None"
  then show "startSession cfg g m wi c uuid now os s = (Some AlreadyRunning, s)"
    by (simp add: startSession_def)
next
  assume "child s = None \<and> \<not> existsSync (serverCwd cfg) (normalizeWorkdir cfg wi) (fsys s) \<and> \<not> c"
  then show "startSession cfg g m wi c uuid now os s = (Some (WorkdirNotFound (normalizeWorkdir cfg wi)), s)"
    by (simp add: startSession_def)
next
  show "fst (startSession cfg g m wi c uuid now os s) = Some AlreadyRunning \<longleftrightarrow> child s \<noteq> None"
    by (rule startSession_busy_iff)
next
  show "fst (startSession cfg g m wi c uuid now os s) = Some (WorkdirNotFound w) \<longleftrightarrow>
        child s = None \<and> \<not> existsSync (serverCwd cfg) (normalizeWorkdir cfg wi) (fsys s) \<and> \<not> c
        \<and> w = normalizeWorkdir cfg wi"
  proof
    assume "fst (startSession cfg g m wi c uuid now os s) = Some (WorkdirNotFound w)"
    then show "child s = None \<and> \<not> existsSync (serverCwd cfg) (normalizeWorkdir cfg wi) (fsys s) \<and> \<not> c
        \<and> w = normalizeWorkdir cfg wi"
      by (cases rule: startSession_cases[of s cfg g m wi c uuid now os]) auto
  next
    assume "child s = None \<and> \<not> existsSync (serverCwd cfg) (normalizeWorkdir cfg wi) (fsys s) \<and> \<not> c
        \<and> w = normalizeWorkdir cfg wi"
    then show "fst (startSession cfg g m wi c uuid now os s) = Some (WorkdirNotFound w)"
      by (simp add: startSession_def)
  qed
next
  assume "fst (startSession cfg g m wi c uuid now os s) = Some AlreadyRunning
        \<or> fst (startSession cfg g m wi c uuid now os s) = Some (WorkdirNotFound w)"
  then show "snd (startSession cfg g m wi c uuid now os s) = s"
    by (cases rule: startSession_cases[of s cfg g m wi c uuid now os]) auto
next
  assume ok: "fst (startSession cfg g m wi c uuid now os s) = None"
  let ?s1 = "snd (startSession cfg g m wi c uuid now os s)"
  from ok obtain t where e: "startSession cfg g m wi c uuid now os s
       = (None, (announced cfg g m (normalizeWorkdir cfg wi) uuid now t s)
                  \<lparr>child := Some (commandLine cfg g m (normalizeWorkdir cfg wi))\<rparr>)"
    by (rule startSession_ok)
  have ch: "child ?s1 \<noteq> None" using e by simp
  then show 2: "startSession cfg g' m' wi' c' uuid' now' os' ?s1 = (Some AlreadyRunning, ?s1)"
    by (simp add: startSession_def)
  have "readSessions ?s1 = readSessions s @ [newSession cfg g m (normalizeWorkdir cfg wi) uuid now]"
    using e by (simp add: announced_fields readSessions_update)
  then show "readSessions (run cfg [Start g m wi c uuid now os, Start g' m' wi' c' uuid' now' os'] s)
          = readSessions s @ [newSession cfg g m (normalizeWorkdir cfg wi) uuid now]"
    using 2 by (simp add: run_def)
qed

text \<open>
  Two starts in a row on the sample server, and starts with \<^verbatim>\<open>createIfMissing\<close> false in a
  directory that does not exist and under a file that is no directory.
\<close>

theorem start_refused_without_change_witness:
  "fst (startSession sampleConfig ''second goal'' 0 (Some ''/tmp/proj'') True ''id-2''
          ''2026-01-01T10:01:00.000Z'' noFaults (step sampleConfig sampleStart sampleServer)) = Some AlreadyRunning
   \<and> step sampleConfig (Start ''second goal'' 0 (Some ''/tmp/proj'') True ''id-2'' ''2026-01-01T10:01:00.000Z'' noFaults)
         (step sampleConfig sampleStart sampleServer) = step sampleConfig sampleStart sampleServer
   \<and> length (readSessions (run sampleConfig
         [sampleStart, Start ''second goal'' 0 (Some ''/tmp/proj'') True ''id-2'' ''2026-01-01T10:01:00.000Z'' noFaults]
         sampleServer)) = 1
   \<and> startSession sampleConfig ''add a health endpoint'' 0 (Some ''/nowhere'') False ''id-1''
          ''2026-01-01T10:00:00.000Z'' noFaults sampleServer = (Some (WorkdirNotFound ''/nowhere''), sampleServer)
   \<and> startSession sampleConfig ''add a health endpoint'' 0 (Some ''/tmp/notes/'') False ''id-1''
          ''2026-01-01T10:00:00.000Z'' noFaults sampleServer = (Some (WorkdirNotFound ''/tmp/notes/''), sampleServer)"
proof -
  note A = start_refused_without_change[of sampleServer sampleConfig
      "''add a health endpoint''" 0 "Some ''/tmp/proj''" False "''id-1''" "''2026-01-01T10:00:00.000Z''" noFaults
      "''/tmp/proj''"
      "''second goal''" 0 "Some ''/tmp/proj''" True "''id-2''" "''2026-01-01T10:01:00.000Z''" noFaults]
  note B = start_refused_without_change[of sampleServer sampleConfig
      "''add a health endpoint''" 0 "Some ''/nowhere''" False "''id-1''" "''2026-01-01T10:00:00.000Z''" noFaults]
  note C = start_refused_without_change[of sampleServer sampleConfig
      "''add a health endpoint''" 0 "Some ''/tmp/notes/''" False "''id-1''" "''2026-01-01T10:00:00.000Z''" noFaults]
  have 2: "child sampleServer = None
           \<and> \<not> existsSync (serverCwd sampleConfig) (normalizeWorkdir sampleConfig (Some ''/nowhere'')) (fsys sampleServer)
           \<and> \<not> False"
    by code_simp
  have 5: "child sampleServer = None
           \<and> \<not> existsSync (serverCwd sampleConfig) (normalizeWorkdir sampleConfig (Some ''/tmp/notes/'')) (fsys sampleServer)
           \<and> \<not> False"
    by code_simp
  have 3: "normalizeWorkdir sampleConfig (Some ''/nowhere'') = ''/nowhere''"
          "normalizeWorkdir sampleConfig (Some ''/tmp/notes/'') = ''/tmp/notes/''" by code_simp+
  have 4: "readSessions sampleServer = []" by (simp add: readSessions_def sampleServer_def)
  show ?thesis using A B C sample_start_passes 2 5 by (simp add: 3 4 sampleStart_def)
qed

subsection \<open>The state directory of a working directory\<close>

text \<open>
  Claim C8. The state directory is a function of the resolved working directory alone
  (for a given base directory): a start that succeeds records
  \<open>stateDirFor cfg\<close> of the resolved working directory, whatever the goal, the id, the
  time and the state of the server, a restarted one included. The derivation is
  injective: two working directories have the same state directory only if they are the
  same, so two starts record the same state directory exactly when they resolve to the
  same working directory.
\<close>

theorem stateDir_deterministic_and_injective:
  "(stateDirFor cfg w1 = stateDirFor cfg w2 \<longleftrightarrow> w1 = w2)
   \<and> (fst (startSession cfg g m wi c uuid now os s) = None \<longrightarrow>
        map_option sess_stateDir (currentSession (snd (startSession cfg g m wi c uuid now os s)))
          = Some (stateDirFor cfg (normalizeWorkdir cfg wi)))
   \<and> (fst (startSession cfg g m wi c uuid now os s) = None
        \<and> fst (startSession cfg g' m' wi' c' uuid' now' os' s') = None \<longrightarrow>
        (map_option sess_stateDir (currentSession (snd (startSession cfg g m wi c uuid now os s)))
           = map_option sess_stateDir (currentSession (snd (startSession cfg g' m' wi' c' uuid' now' os' s')))
         \<longleftrightarrow> normalizeWorkdir cfg wi = normalizeWorkdir cfg wi'))"
proof -
  have ok: "fst (startSession cfg g m wi c uuid now os s) = None \<Longrightarrow>
        map_option sess_stateDir (currentSession (snd (startSession cfg g m wi c uuid now os s)))
          = Some (stateDirFor cfg (normalizeWorkdir cfg wi))" for g m wi c uuid now os s
  proof -
    assume "fst (startSession cfg g m wi c uuid now os s) = None"
    then obtain t where "startSession cfg g m wi c uuid now os s
       = (None, (announced cfg g m (normalizeWorkdir cfg wi) uuid now t s)
                  \<lparr>child := Some (commandLine cfg g m (normalizeWorkdir cfg wi))\<rparr>)"
      by (rule startSession_ok)
    then show ?thesis by (simp add: announced_fields newSession_def)
  qed
  show ?thesis
  proof (intro conjI impI)
    show "stateDirFor cfg w1 = stateDirFor cfg w2 \<longleftrightarrow> w1 = w2" by (rule stateDirFor_inj)
  next
    assume "fst (startSession cfg g m wi c uuid now os s) = None"
    then show "map_option sess_stateDir (currentSession (snd (startSession cfg g m wi c uuid now os s)))
          = Some (stateDirFor cfg (normalizeWorkdir cfg wi))" by (rule ok)
  next
    assume "fst (startSession cfg g m wi c uuid now os s) = None
        \<and> fst (startSession cfg g' m' wi' c' uuid' now' os' s') = None"
    then have a: "map_option sess_stateDir (currentSession (snd (startSession cfg g m wi c uuid now os s)))
          = Some (stateDirFor cfg (normalizeWorkdir cfg wi))"
      and b: "map_option sess_stateDir (currentSession (snd (startSession cfg g' m' wi' c' uuid' now' os' s')))
          = Some (stateDirFor cfg (normalizeWorkdir cfg wi'))"
      using ok by blast+
    show "map_option sess_stateDir (currentSession (snd (startSession cfg g m wi c uuid now os s)))
           = map_option sess_stateDir (currentSession (snd (startSession cfg g' m' wi' c' uuid' now' os' s')))
         \<longleftrightarrow> normalizeWorkdir cfg wi = normalizeWorkdir cfg wi'"
      unfolding a b by (simp add: stateDirFor_inj)
  qed
qed

text \<open>
  \<^verbatim>\<open>/tmp/proj\<close> has the state directory \<^verbatim>\<open>/var/millhouse/L3RtcC9wcm9q\<close>, before and after
  a restart of the server, and \<^verbatim>\<open>/tmp/proj/\<close> has another one.
\<close>

theorem stateDir_deterministic_and_injective_witness:
  "stateDirFor sampleConfig ''/tmp/proj'' \<noteq> stateDirFor sampleConfig ''/tmp/proj/''
   \<and> map_option sess_stateDir (currentSession (step sampleConfig sampleStart sampleServer))
       = Some ''/var/millhouse/L3RtcC9wcm9q''
   \<and> map_option sess_stateDir (currentSession (step sampleConfig sampleRestart
          (run sampleConfig [sampleStart, Restart] sampleServer)))
       = Some ''/var/millhouse/L3RtcC9wcm9q''"
proof -
  let ?s' = "run sampleConfig [sampleStart, Restart] sampleServer"
  note T = stateDir_deterministic_and_injective[of sampleConfig "''/tmp/proj''" "''/tmp/proj/''"
      "''add a health endpoint''" 0 "Some ''/tmp/proj''" False "''id-1''" "''2026-01-01T10:00:00.000Z''" noFaults sampleServer
      "''add a health endpoint''" 0 "Some ''/tmp/proj''" False "''id-2''" "''2026-01-01T11:00:00.000Z''" noFaults ?s']
  have 2: "fst (startSession sampleConfig ''add a health endpoint'' 0 (Some ''/tmp/proj'') False ''id-2''
              ''2026-01-01T11:00:00.000Z'' noFaults ?s') = None"
    unfolding sampleStart_def by code_simp
  note T' = stateDir_deterministic_and_injective[of sampleConfig "''/tmp/proj''" "''/tmp/proj/''"
      "''add a health endpoint''" 0 "Some ''/tmp/proj''" False "''id-2''" "''2026-01-01T11:00:00.000Z''" noFaults ?s']
  have a: "stateDirFor sampleConfig ''/tmp/proj'' \<noteq> stateDirFor sampleConfig ''/tmp/proj/''"
    using T by simp
  have b: "map_option sess_stateDir (currentSession (step sampleConfig sampleStart sampleServer))
       = Some ''/var/millhouse/L3RtcC9wcm9q''"
    using T sample_start_passes by (simp add: sample_normalize sample_stateDir sampleStart_def)
  have c: "map_option sess_stateDir (currentSession (step sampleConfig sampleRestart ?s'))
       = Some ''/var/millhouse/L3RtcC9wcm9q''"
    using T' 2 by (simp add: sample_normalize sample_stateDir sampleRestart_def)
  show ?thesis using a b c by blast
qed
end
